theory Spec2Isabelle
  imports Complex_Main "HOL-Library.Word"
begin

unbundle bit_operations_syntax

section \<open>Status packet integers (status.c)\<close>

text \<open>
  The encoders write through a pointer \<open>uint8_t **buf\<close>. Memory is a store from
  addresses to bytes, the pointer is an address; every encoder returns the new store,
  the advanced pointer and its C return value. \<open>enum status_type\<close> is declared in
  a header that is not part of the sources at hand, so the type tag is taken as its
  numeric value, stored into one byte as the C assignment \<open>*cp++ = type\<close> does.
\<close>

type_synonym byte = "8 word"
type_synonym memory = "nat \<Rightarrow> byte"

text \<open>
  First loop of \<open>encode_int64\<close>:
  \<open>while(len > 0 && (x & 0xff00000000000000LL) == 0){ x <<= 8; len--; }\<close>
\<close>

fun strip_leading :: "nat \<Rightarrow> 64 word \<Rightarrow> nat \<times> 64 word" where
  "strip_leading 0 x = (0, x)"
| "strip_leading (Suc n) x =
     (if x AND 0xff00000000000000 = 0 then strip_leading n (push_bit 8 x) else (Suc n, x))"

text \<open>
  Second loop: \<open>for(int i=0; i<len; i++){ *cp++ = x >> 56; x <<= 8; }\<close>; the first
  argument counts the iterations that remain.
\<close>

fun write_bytes :: "nat \<Rightarrow> memory \<Rightarrow> nat \<Rightarrow> 64 word \<Rightarrow> memory \<times> nat" where
  "write_bytes 0 mem cp x = (mem, cp)"
| "write_bytes (Suc n) mem cp x =
     write_bytes n (mem(cp := ucast (drop_bit 56 x))) (Suc cp) (push_bit 8 x)"

definition encode_int64 :: "memory \<Rightarrow> nat \<Rightarrow> nat \<Rightarrow> 64 word \<Rightarrow> memory \<times> nat \<times> int" where
  "encode_int64 mem buf type x =
     (let cp = buf;
          mem = mem(cp := of_nat type); cp = Suc cp
      in if x = 0 then
           (let mem = mem(cp := 0); cp = Suc cp in (mem, cp, 2))
         else
           (let (len, x) = strip_leading 8 x;
                mem = mem(cp := of_nat len); cp = Suc cp;
                (mem, cp) = write_bytes len mem cp x
            in (mem, cp, 2 + int len)))"

text \<open>
  \<open>decode_int\<close>: \<open>while(len-- > 0) result = (result << 8) | *cp++;\<close> with a C
  \<open>int\<close> length, which may be zero or negative.
\<close>

function decode_loop :: "memory \<Rightarrow> nat \<Rightarrow> int \<Rightarrow> 64 word \<Rightarrow> 64 word" where
  "decode_loop mem cp len result =
     (if len > 0 then decode_loop mem (Suc cp) (len - 1) (push_bit 8 result OR ucast (mem cp))
      else result)"
  by pat_completeness auto
termination
  by (relation "measure (\<lambda>(mem, cp, len, result). nat len)") auto

definition decode_int :: "memory \<Rightarrow> nat \<Rightarrow> int \<Rightarrow> 64 word" where
  "decode_int mem cp len = decode_loop mem cp len 0"


section \<open>Floating-point values\<close>

text \<open>
  A C \<open>float\<close> or \<open>double\<close> is a finite real, an infinity or a NaN. Arithmetic on
  finite values is exact: rounding, overflow, underflow and the sign of zero are not
  modelled (a zero divisor counts as \<open>+0\<close>). What is modelled is every place where the
  operations of the code leave the finite numbers: division by zero, the square root of
  a negative number, \<open>powf\<close> outside its real domain, and the comparisons with a NaN,
  which are all false except \<open>!=\<close>.
\<close>

datatype cfloat = Fin real | PInf | NInf | NaN

fun fadd :: "cfloat \<Rightarrow> cfloat \<Rightarrow> cfloat" where
  "fadd (Fin a) (Fin b) = Fin (a + b)"
| "fadd NaN _ = NaN"
| "fadd _ NaN = NaN"
| "fadd PInf NInf = NaN"
| "fadd NInf PInf = NaN"
| "fadd PInf _ = PInf"
| "fadd NInf _ = NInf"
| "fadd _ PInf = PInf"
| "fadd _ NInf = NInf"

fun fneg :: "cfloat \<Rightarrow> cfloat" where
  "fneg (Fin a) = Fin (- a)"
| "fneg PInf = NInf"
| "fneg NInf = PInf"
| "fneg NaN = NaN"

definition fsub :: "cfloat \<Rightarrow> cfloat \<Rightarrow> cfloat" where
  "fsub x y = fadd x (fneg y)"

fun fmul :: "cfloat \<Rightarrow> cfloat \<Rightarrow> cfloat" where
  "fmul (Fin a) (Fin b) = Fin (a * b)"
| "fmul NaN _ = NaN"
| "fmul _ NaN = NaN"
| "fmul PInf (Fin b) = (if 0 < b then PInf else if b < 0 then NInf else NaN)"
| "fmul NInf (Fin b) = (if 0 < b then NInf else if b < 0 then PInf else NaN)"
| "fmul (Fin a) PInf = (if 0 < a then PInf else if a < 0 then NInf else NaN)"
| "fmul (Fin a) NInf = (if 0 < a then NInf else if a < 0 then PInf else NaN)"
| "fmul PInf PInf = PInf"
| "fmul PInf NInf = NInf"
| "fmul NInf PInf = NInf"
| "fmul NInf NInf = PInf"

fun fdiv :: "cfloat \<Rightarrow> cfloat \<Rightarrow> cfloat" where
  "fdiv (Fin a) (Fin b) =
     (if b \<noteq> 0 then Fin (a / b)
      else if 0 < a then PInf else if a < 0 then NInf else NaN)"
| "fdiv NaN _ = NaN"
| "fdiv _ NaN = NaN"
| "fdiv (Fin a) PInf = Fin 0"
| "fdiv (Fin a) NInf = Fin 0"
| "fdiv PInf (Fin b) = (if 0 \<le> b then PInf else NInf)"
| "fdiv NInf (Fin b) = (if 0 \<le> b then NInf else PInf)"
| "fdiv PInf PInf = NaN"
| "fdiv PInf NInf = NaN"
| "fdiv NInf PInf = NaN"
| "fdiv NInf NInf = NaN"

text \<open>The C comparisons \<open><\<close>, \<open>>\<close>, \<open>==\<close> and \<open>!=\<close>.\<close>

fun fless :: "cfloat \<Rightarrow> cfloat \<Rightarrow> bool" where
  "fless (Fin a) (Fin b) = (a < b)"
| "fless NaN _ = False"
| "fless _ NaN = False"
| "fless _ NInf = False"
| "fless PInf _ = False"
| "fless NInf _ = True"
| "fless _ PInf = True"

definition fgreater :: "cfloat \<Rightarrow> cfloat \<Rightarrow> bool" where
  "fgreater x y = fless y x"

fun feq :: "cfloat \<Rightarrow> cfloat \<Rightarrow> bool" where
  "feq (Fin a) (Fin b) = (a = b)"
| "feq PInf PInf = True"
| "feq NInf NInf = True"
| "feq _ _ = False"

definition fne :: "cfloat \<Rightarrow> cfloat \<Rightarrow> bool" where
  "fne x y = (\<not> feq x y)"

definition isnan :: "cfloat \<Rightarrow> bool" where
  "isnan x = (x = NaN)"

text \<open>The C library functions \<open>sqrtf\<close>, \<open>fabsf\<close> and \<open>powf\<close> with their special cases.\<close>

fun fsqrt :: "cfloat \<Rightarrow> cfloat" where
  "fsqrt (Fin a) = (if a < 0 then NaN else Fin (sqrt a))"
| "fsqrt PInf = PInf"
| "fsqrt NInf = NaN"
| "fsqrt NaN = NaN"

fun fabs :: "cfloat \<Rightarrow> cfloat" where
  "fabs (Fin a) = Fin \<bar>a\<bar>"
| "fabs PInf = PInf"
| "fabs NInf = PInf"
| "fabs NaN = NaN"

definition is_odd_integer :: "real \<Rightarrow> bool" where
  "is_odd_integer b = (b = of_int \<lfloor>b\<rfloor> \<and> odd \<lfloor>b\<rfloor>)"

fun powf :: "cfloat \<Rightarrow> cfloat \<Rightarrow> cfloat" where
  "powf (Fin a) (Fin b) =
     (if b = 0 \<or> a = 1 then Fin 1
      else if 0 < a then Fin (a powr b)
      else if a = 0 then (if 0 < b then Fin 0 else PInf)
      else if b = of_int \<lfloor>b\<rfloor>
        then Fin (if odd \<lfloor>b\<rfloor> then - (\<bar>a\<bar> powr b) else \<bar>a\<bar> powr b)
      else NaN)"
| "powf NaN (Fin b) = (if b = 0 then Fin 1 else NaN)"
| "powf (Fin a) NaN = (if a = 1 then Fin 1 else NaN)"
| "powf (Fin a) PInf =
     (if \<bar>a\<bar> < 1 then Fin 0 else if \<bar>a\<bar> = 1 then Fin 1 else PInf)"
| "powf (Fin a) NInf =
     (if \<bar>a\<bar> < 1 then PInf else if \<bar>a\<bar> = 1 then Fin 1 else Fin 0)"
| "powf PInf (Fin b) = (if b = 0 then Fin 1 else if b < 0 then Fin 0 else PInf)"
| "powf NInf (Fin b) =
     (if b = 0 then Fin 1 else if b < 0 then Fin 0
      else if is_odd_integer b then NInf else PInf)"
| "powf PInf PInf = PInf"
| "powf NInf PInf = PInf"
| "powf PInf NInf = Fin 0"
| "powf NInf NInf = Fin 0"
| "powf NaN PInf = NaN"
| "powf NaN NInf = NaN"
| "powf PInf NaN = NaN"
| "powf NInf NaN = NaN"
| "powf NaN NaN = NaN"

section \<open>Status packet floats (status.c)\<close>

text \<open>
  \<open>encode_int32\<close> widens to \<open>uint64_t\<close> and calls \<open>encode_int64\<close>.
  \<open>encode_float\<close> and \<open>encode_double\<close> first test \<open>isnan(x)\<close> and return 0 without
  touching the buffer; otherwise they encode the bit pattern read through
  \<open>union result\<close>. The bit pattern of a value is a property of the IEEE format, taken
  here as the parameters \<open>float_bits\<close> and \<open>double_bits\<close>.
\<close>

definition encode_int32 :: "memory \<Rightarrow> nat \<Rightarrow> nat \<Rightarrow> 32 word \<Rightarrow> memory \<times> nat \<times> int" where
  "encode_int32 mem buf type x = encode_int64 mem buf type (ucast x)"

definition encode_float ::
  "(cfloat \<Rightarrow> 32 word) \<Rightarrow> memory \<Rightarrow> nat \<Rightarrow> nat \<Rightarrow> cfloat \<Rightarrow> memory \<times> nat \<times> int" where
  "encode_float float_bits mem buf type x =
     (if isnan x then (mem, buf, 0)
      else encode_int32 mem buf type (float_bits x))"

definition encode_double ::
  "(cfloat \<Rightarrow> 64 word) \<Rightarrow> memory \<Rightarrow> nat \<Rightarrow> nat \<Rightarrow> cfloat \<Rightarrow> memory \<times> nat \<times> int" where
  "encode_double double_bits mem buf type x =
     (if isnan x then (mem, buf, 0)
      else encode_int64 mem buf type (double_bits x))"


section \<open>The linear demodulator (linear.c)\<close>

subsection \<open>Channel state and external collaborators\<close>

text \<open>
  The fields of \<open>struct channel\<close> that \<open>demod_linear\<close> reads or writes, named by their
  path in the structure (\<open>chan->linear.pll\<close> is \<open>linear_pll\<close>). The structure is
  declared in a header that is not part of the sources at hand; the field types are
  taken from their use: flags are booleans, counters are integers (unbounded here, the
  code keeps them far from the limits of \<open>int\<close>), levels are floats. The phase-locked
  loop and the shift oscillator are kept abstract in the types \<open>'p\<close> and \<open>'o\<close>.
\<close>

text \<open>
  Modelled from the spec: the declarations of \<open>hangcount\<close> and \<open>linear.hangtime\<close> are
  missing; the specification gives the hang time in blocks and the hang counter as the
  remaining blocks, so both are integers and the assignment
  \<open>chan->hangcount = chan->linear.hangtime\<close> copies the value.
\<close>

record ('p, 'o) channel =
  linear_pll :: bool
  linear_square :: bool
  linear_agc :: bool
  linear_env :: bool
  linear_rotations :: int
  linear_cphase :: real
  linear_pll_lock :: bool
  linear_lock_timer :: int
  linear_loop_bw :: cfloat
  linear_hangtime :: int
  linear_threshold :: cfloat
  linear_recovery_rate :: cfloat
  pll_pll :: 'p
  pll_was_on :: bool
  pll_lock_count :: int
  sig_snr :: cfloat
  sig_foffset :: cfloat
  sig_bb_power :: cfloat
  sig_n0 :: cfloat
  fm_squelch_open :: cfloat
  fm_squelch_close :: cfloat
  filter_min_IF :: cfloat
  filter_max_IF :: cfloat
  tune_shift :: cfloat
  tune_freq :: cfloat
  shift :: 'o
  output_gain :: cfloat
  output_headroom :: cfloat
  output_channels :: int
  output_samprate :: int
  output_energy :: cfloat
  output_sum_gain_sq :: cfloat
  hangcount :: int

text \<open>
  The oscillator and loop routines (\<open>init_pll\<close>, \<open>pll_phasor\<close>, \<open>run_pll\<close>,
  \<open>set_pll_params\<close>, \<open>pll_freq\<close>, \<open>set_osc\<close>, \<open>step_osc\<close>) live in a file that is
  not part of the sources at hand, and \<open>carg\<close> is the C library's; they are parameters
  of the model. \<open>reset_integrator\<close> stands for the assignment
  \<open>chan->pll.pll.integrator = 0\<close> and \<open>osc_freq\<close> for reading \<open>chan->shift.freq\<close>.
  Samples and phasors are finite complex numbers.
\<close>

record ('p, 'o) externals =
  init_pll :: "'p \<Rightarrow> cfloat \<Rightarrow> 'p"
  pll_phasor :: "'p \<Rightarrow> complex"
  run_pll :: "'p \<Rightarrow> real \<Rightarrow> 'p"
  set_pll_params :: "'p \<Rightarrow> cfloat \<Rightarrow> cfloat \<Rightarrow> 'p"
  pll_freq :: "'p \<Rightarrow> cfloat"
  reset_integrator :: "'p \<Rightarrow> 'p"
  set_osc :: "'o \<Rightarrow> cfloat \<Rightarrow> cfloat \<Rightarrow> 'o"
  step_osc :: "'o \<Rightarrow> complex \<times> 'o"
  osc_freq :: "'o \<Rightarrow> cfloat"
  carg :: "complex \<Rightarrow> real"

definition DEFAULT_PLL_DAMPING :: cfloat where
  "DEFAULT_PLL_DAMPING = Fin (1 / sqrt 2)"



subsection \<open>First pass: carrier tracking\<close>

text \<open>
  The loop over the block when the PLL is on: each sample is rotated by the conjugate of
  the loop's phasor and stored back, the loop is run on its phase, and the in-phase and
  quadrature powers are accumulated.
\<close>

fun pll_samples ::
  "('p, 'o) externals \<Rightarrow> bool \<Rightarrow> complex list \<Rightarrow> 'p \<Rightarrow> real \<Rightarrow> real
     \<Rightarrow> complex list \<times> 'p \<times> real \<times> real" where
  "pll_samples ext square [] pll signal noise = ([], pll, signal, noise)"
| "pll_samples ext square (b # buffer) pll signal noise =
     (let s = b * cnj (pll_phasor ext pll);
          phase = (if square then carg ext (s * s) else carg ext s);
          pll = run_pll ext pll phase;
          signal = signal + Re s * Re s;
          noise = noise + Im s * Im s;
          (buffer, pll, signal, noise) = pll_samples ext square buffer pll signal noise
      in (s # buffer, pll, signal, noise))"

definition pll_snr :: "real \<Rightarrow> real \<Rightarrow> cfloat" where
  "pll_snr signal noise =
     (if noise \<noteq> 0 then
        (let snr = fsub (fdiv (Fin signal) (Fin noise)) (Fin 1)
         in if fless snr (Fin 0) then Fin 0 else snr)
      else NaN)"

text \<open>Loop lock detector with hysteresis.\<close>

definition lock_detector :: "int \<Rightarrow> int \<Rightarrow> ('p, 'o) channel \<Rightarrow> ('p, 'o) channel" where
  "lock_detector lock_limit N chan =
     (let chan =
        (if fless (sig_snr chan) (fm_squelch_close chan) then
           (let chan = chan\<lparr>pll_lock_count := pll_lock_count chan - N\<rparr>
            in if pll_lock_count chan \<le> - lock_limit
               then chan\<lparr>pll_lock_count := - lock_limit, linear_pll_lock := False\<rparr>
               else chan)
         else if fgreater (sig_snr chan) (fm_squelch_open chan) then
           (let chan = chan\<lparr>pll_lock_count := pll_lock_count chan + N\<rparr>
            in if pll_lock_count chan \<ge> lock_limit
               then chan\<lparr>pll_lock_count := lock_limit, linear_pll_lock := True\<rparr>
               else chan)
         else chan)
      in chan\<lparr>linear_lock_timer := pll_lock_count chan\<rparr>)"

text \<open>Phase wraps between consecutive blocks.\<close>

definition phase_update :: "('p, 'o) externals \<Rightarrow> ('p, 'o) channel \<Rightarrow> ('p, 'o) channel" where
  "phase_update ext chan =
     (let phase = carg ext (pll_phasor ext (pll_pll chan));
          phase_diff = phase - linear_cphase chan;
          chan = chan\<lparr>linear_cphase := phase\<rparr>
      in if phase_diff > pi then chan\<lparr>linear_rotations := linear_rotations chan - 1\<rparr>
         else if phase_diff < - pi then chan\<lparr>linear_rotations := linear_rotations chan + 1\<rparr>
         else chan)"

definition pll_update ::
  "('p, 'o) externals \<Rightarrow> int \<Rightarrow> ('p, 'o) channel \<Rightarrow> complex list
     \<Rightarrow> ('p, 'o) channel \<times> complex list" where
  "pll_update ext lock_limit chan buffer =
     (if linear_pll chan then
        (let N = int (length buffer);
             chan = (if \<not> pll_was_on chan
                     then chan\<lparr>linear_rotations := 0,
                               pll_pll := reset_integrator ext (pll_pll chan),
                               pll_was_on := True\<rparr>
                     else chan);
             chan = chan\<lparr>pll_pll :=
                      set_pll_params ext (pll_pll chan) (linear_loop_bw chan) DEFAULT_PLL_DAMPING\<rparr>;
             (buffer, pll, signal, noise) =
                pll_samples ext (linear_square chan) buffer (pll_pll chan) 0 0;
             chan = chan\<lparr>pll_pll := pll, sig_snr := pll_snr signal noise\<rparr>;
             chan = lock_detector lock_limit N chan;
             chan = phase_update ext chan;
             chan = chan\<lparr>sig_foffset := pll_freq ext (pll_pll chan)\<rparr>
         in (chan, buffer))
      else (chan\<lparr>pll_was_on := False\<rparr>, buffer))"

subsection \<open>Post-detection frequency shift\<close>

fun shift_samples ::
  "('p, 'o) externals \<Rightarrow> complex list \<Rightarrow> 'o \<Rightarrow> complex list \<times> 'o" where
  "shift_samples ext [] osc = ([], osc)"
| "shift_samples ext (b # buffer) osc =
     (let (z, osc) = step_osc ext osc;
          (buffer, osc) = shift_samples ext buffer osc
      in (b * z # buffer, osc))"

definition shift_update ::
  "('p, 'o) externals \<Rightarrow> ('p, 'o) channel \<Rightarrow> complex list
     \<Rightarrow> ('p, 'o) channel \<times> complex list" where
  "shift_update ext chan buffer =
     (let chan = chan\<lparr>shift :=
            set_osc ext (shift chan)
              (fdiv (tune_shift chan) (Fin (of_int (output_samprate chan)))) (Fin 0)\<rparr>
      in if fne (osc_freq ext (shift chan)) (Fin 0)
         then (let (buffer, osc) = shift_samples ext buffer (shift chan)
               in (chan\<lparr>shift := osc\<rparr>, buffer))
         else (chan, buffer))"

subsection \<open>Automatic gain control\<close>

text \<open>
  The locals \<open>bn\<close> (noise amplitude) and \<open>ampl\<close> (signal amplitude), the two conditions
  of the gain-reducing branches and their \<open>newgain\<close>.
\<close>

definition agc_bn :: "('p, 'o) channel \<Rightarrow> cfloat" where
  "agc_bn chan =
     (let bw = fabs (fsub (filter_min_IF chan) (filter_max_IF chan))
      in fsqrt (fmul bw (sig_n0 chan)))"

definition agc_ampl :: "('p, 'o) channel \<Rightarrow> cfloat" where
  "agc_ampl chan = fsqrt (sig_bb_power chan)"

definition strong_signal :: "('p, 'o) channel \<Rightarrow> bool" where
  "strong_signal chan =
     fgreater (fmul (agc_ampl chan) (output_gain chan)) (output_headroom chan)"

definition strong_newgain :: "('p, 'o) channel \<Rightarrow> cfloat" where
  "strong_newgain chan = fdiv (output_headroom chan) (agc_ampl chan)"

definition noise_above_threshold :: "('p, 'o) channel \<Rightarrow> bool" where
  "noise_above_threshold chan =
     fgreater (fmul (agc_bn chan) (output_gain chan))
              (fmul (linear_threshold chan) (output_headroom chan))"

definition noise_newgain :: "('p, 'o) channel \<Rightarrow> cfloat" where
  "noise_newgain chan =
     fdiv (fmul (linear_threshold chan) (output_headroom chan)) (agc_bn chan)"

text \<open>
  \<open>assert(gain_change != 0)\<close> aborts the process when it fails: \<open>None\<close>.
\<close>

definition assert_nonzero :: "cfloat \<Rightarrow> 'a \<Rightarrow> 'a option" where
  "assert_nonzero gain_change r = (if fne gain_change (Fin 0) then Some r else None)"

text \<open>
  The block's gain decision: the per-sample factor \<open>gain_change\<close> and the new hang
  counter, for a block of \<open>N\<close> samples.
\<close>

definition agc :: "('p, 'o) channel \<Rightarrow> nat \<Rightarrow> (cfloat \<times> int) option" where
  "agc chan N =
     (if linear_agc chan then
        (if strong_signal chan then
           (let newgain = strong_newgain chan;
                gain_change =
                  (if fgreater newgain (Fin 0)
                   then powf (fdiv newgain (output_gain chan)) (fdiv (Fin 1) (Fin (real N)))
                   else Fin 1)
            in assert_nonzero gain_change (gain_change, linear_hangtime chan))
         else if noise_above_threshold chan then
           (let newgain = noise_newgain chan;
                gain_change =
                  (if fgreater newgain (Fin 0)
                   then powf (fdiv newgain (output_gain chan)) (fdiv (Fin 1) (Fin (real N)))
                   else Fin 1)
            in assert_nonzero gain_change (gain_change, hangcount chan))
         else if hangcount chan > 0 then
           Some (Fin 1, hangcount chan - 1)
         else
           (let gain_change = powf (linear_recovery_rate chan) (fdiv (Fin 1) (Fin (real N)))
            in assert_nonzero gain_change (gain_change, hangcount chan)))
      else Some (Fin 1, hangcount chan))"

subsection \<open>Final pass: demodulation and gain ramp\<close>

text \<open>
  One output sample (mono) or pair (stereo, left then right) and its contribution to
  the output power, for each of the four modes.
\<close>

text \<open>
  Modelled from the spec: \<open>cnrmf\<close> is declared in a header that is not part of the
  sources at hand; the specification calls it the squared output magnitude.
\<close>

definition cnrmf :: "cfloat \<times> cfloat \<Rightarrow> cfloat" where
  "cnrmf z = fadd (fmul (fst z) (fst z)) (fmul (snd z) (snd z))"

definition mono_envelope :: "complex \<Rightarrow> cfloat \<Rightarrow> cfloat list \<times> cfloat" where
  "mono_envelope b gain = (let s = fmul (Fin (cmod b)) gain in ([s], fmul s s))"

definition mono_inphase :: "complex \<Rightarrow> cfloat \<Rightarrow> cfloat list \<times> cfloat" where
  "mono_inphase b gain = (let s = fmul (Fin (Re b)) gain in ([s], fmul s s))"

definition stereo_envelope :: "complex \<Rightarrow> cfloat \<Rightarrow> cfloat list \<times> cfloat" where
  "stereo_envelope b gain =
     (let im = cmod b * 2;
          z = (fmul (Fin (Re b)) gain, fmul (Fin im) gain)
      in ([fst z, snd z], cnrmf z))"

definition stereo_iq :: "complex \<Rightarrow> cfloat \<Rightarrow> cfloat list \<times> cfloat" where
  "stereo_iq b gain =
     (let z = (fmul (Fin (Re b)) gain, fmul (Fin (Im b)) gain)
      in ([fst z, snd z], cnrmf z))"

text \<open>
  The sample loop. The code has one copy of it for each mode, chosen once per block by
  \<open>chan->output.channels\<close> and \<open>chan->linear.env\<close>; each copy writes the output, adds
  its power, then does \<open>chan->output.gain *= gain_change\<close>.
\<close>

fun gain_loop ::
  "(complex \<Rightarrow> cfloat \<Rightarrow> cfloat list \<times> cfloat) \<Rightarrow> cfloat \<Rightarrow> complex list \<Rightarrow> cfloat \<Rightarrow> cfloat
     \<Rightarrow> cfloat list \<times> cfloat \<times> cfloat" where
  "gain_loop f gain_change [] gain output_power = ([], gain, output_power)"
| "gain_loop f gain_change (b # buffer) gain output_power =
     (let (s, p) = f b gain;
          output_power = fadd output_power p;
          gain = fmul gain gain_change;
          (samples, gain, output_power) = gain_loop f gain_change buffer gain output_power
      in (s @ samples, gain, output_power))"

definition output_mode :: "('p, 'o) channel \<Rightarrow> complex \<Rightarrow> cfloat \<Rightarrow> cfloat list \<times> cfloat" where
  "output_mode chan =
     (if output_channels chan = 1
      then (if linear_env chan then mono_envelope else mono_inphase)
      else (if linear_env chan then stereo_envelope else stereo_iq))"

definition final_pass ::
  "('p, 'o) channel \<Rightarrow> cfloat \<Rightarrow> complex list \<Rightarrow> cfloat list \<times> cfloat \<times> cfloat" where
  "final_pass chan gain_change buffer =
     gain_loop (output_mode chan) gain_change buffer (output_gain chan) (Fin 0)"

subsection \<open>One block, and the loop over the blocks\<close>

text \<open>
  What the surroundings supply for one turn of \<open>while(downconvert(chan) == 0)\<close>: the
  samples of the filter output, the power estimates, and the answer of \<open>send_output\<close>.
\<close>

record block_input =
  blk_samples :: "complex list"
  blk_bb_power :: cfloat
  blk_n0 :: cfloat
  blk_send_result :: int

text \<open>
  Modelled from the spec: \<open>downconvert\<close> is not part of the sources at hand; by the
  specification it yields the block of complex samples and, per block, the estimates of
  baseband power and noise density.
\<close>

definition downconvert :: "('p, 'o) channel \<Rightarrow> block_input \<Rightarrow> ('p, 'o) channel" where
  "downconvert chan blk = chan\<lparr>sig_bb_power := blk_bb_power blk, sig_n0 := blk_n0 blk\<rparr>"

datatype ('p, 'o) outcome =
    Aborted
  | Delivered "('p, 'o) channel" "cfloat list" bool
  | Undelivered "('p, 'o) channel" "cfloat list" bool

text \<open>The per-sample output power and the mute flag handed to \<open>send_output\<close>.\<close>

definition per_sample_power :: "('p, 'o) channel \<Rightarrow> cfloat \<Rightarrow> nat \<Rightarrow> cfloat" where
  "per_sample_power chan output_power N =
     (let output_power = fdiv output_power (Fin (real N))
      in if output_channels chan = 1 then fmul output_power (Fin 2) else output_power)"

definition mute_flag :: "('p, 'o) channel \<Rightarrow> cfloat \<Rightarrow> bool" where
  "mute_flag chan output_power =
     (feq output_power (Fin 0) \<or> (linear_pll chan \<and> \<not> linear_pll_lock chan)
      \<or> feq (tune_freq chan) (Fin 0))"

text \<open>
  The first pass over the block: the PLL, then the frequency shift.
\<close>

definition first_pass ::
  "('p, 'o) externals \<Rightarrow> int \<Rightarrow> ('p, 'o) channel \<Rightarrow> complex list
     \<Rightarrow> ('p, 'o) channel \<times> complex list" where
  "first_pass ext lock_limit chan buffer =
     (let (chan, buffer) = pll_update ext lock_limit chan buffer
      in shift_update ext chan buffer)"

text \<open>
  The body of the loop up to the per-sample output power: the two passes over the block
  with the gain decision between them. The result is the channel, the output samples,
  the local \<open>start_gain\<close> and the local \<open>output_power\<close>; \<open>None\<close> is a failed assertion.
\<close>

definition block_pass ::
  "('p, 'o) externals \<Rightarrow> int \<Rightarrow> ('p, 'o) channel \<Rightarrow> block_input
     \<Rightarrow> (('p, 'o) channel \<times> cfloat list \<times> cfloat \<times> cfloat) option" where
  "block_pass ext lock_limit chan blk =
     (let N = length (blk_samples blk);
          (chan, buffer) = first_pass ext lock_limit chan (blk_samples blk)
      in case agc chan N of
           None \<Rightarrow> None
         | Some (gain_change, hang) \<Rightarrow>
             (let chan = chan\<lparr>hangcount := hang\<rparr>;
                  start_gain = output_gain chan;
                  (samples, gain, output_power) = final_pass chan gain_change buffer;
                  chan = chan\<lparr>output_gain := gain\<rparr>;
                  output_power = per_sample_power chan output_power N
              in Some (chan, samples, start_gain, output_power)))"

text \<open>
  The rest of the body: the energy counter, the mute flag, \<open>send_output\<close> and, unless
  that ended the loop, the average-gain accumulator.
\<close>

definition demod_block ::
  "('p, 'o) externals \<Rightarrow> int \<Rightarrow> ('p, 'o) channel \<Rightarrow> block_input \<Rightarrow> ('p, 'o) outcome" where
  "demod_block ext lock_limit chan blk =
     (case block_pass ext lock_limit chan blk of
        None \<Rightarrow> Aborted
      | Some (chan, samples, start_gain, output_power) \<Rightarrow>
          (let chan = chan\<lparr>output_energy := fadd (output_energy chan) output_power\<rparr>;
               mute = mute_flag chan output_power
           in if blk_send_result blk = - 1 then Undelivered chan samples mute
              else Delivered
                     (chan\<lparr>output_sum_gain_sq :=
                        fadd (output_sum_gain_sq chan) (fmul start_gain (output_gain chan))\<rparr>)
                     samples mute))"

datatype loop_exit = Upstream_closed | No_output | Assertion_failed

fun demod_loop ::
  "('p, 'o) externals \<Rightarrow> int \<Rightarrow> ('p, 'o) channel \<Rightarrow> block_input list
     \<Rightarrow> ('p, 'o) channel \<times> (cfloat list \<times> bool) list \<times> loop_exit" where
  "demod_loop ext lock_limit chan [] = (chan, [], Upstream_closed)"
| "demod_loop ext lock_limit chan (blk # blks) =
     (case demod_block ext lock_limit (downconvert chan blk) blk of
        Aborted \<Rightarrow> (downconvert chan blk, [], Assertion_failed)
      | Undelivered chan samples mute \<Rightarrow> (chan, [(samples, mute)], No_output)
      | Delivered chan samples mute \<Rightarrow>
          (let (chan, sent, exit) = demod_loop ext lock_limit chan blks
           in (chan, (samples, mute) # sent, exit)))"




subsection \<open>A concrete channel\<close>

text \<open>
  One instance of the parameters, for evaluating the model on concrete blocks: a loop
  whose state is its phasor and which stays where it is, an idle shift oscillator, and
  a coarse phase detector with the values \<open>-3\<close>, \<open>0\<close> and \<open>3\<close>. The channel is a mono
  in-phase channel with the loop and the gain control switched on, and the block has
  two samples.
\<close>

definition still_externals :: "(complex, unit) externals" where
  "still_externals =
     \<lparr>init_pll = (\<lambda>p _. p), pll_phasor = (\<lambda>p. p), run_pll = (\<lambda>p _. p),
      set_pll_params = (\<lambda>p _ _. p), pll_freq = (\<lambda>_. Fin 0), reset_integrator = (\<lambda>p. p),
      set_osc = (\<lambda>osc _ _. osc), step_osc = (\<lambda>osc. (1, osc)), osc_freq = (\<lambda>_. Fin 0),
      carg = (\<lambda>z. if Im z < 0 then - 3 else if Re z < 0 then 3 else 0)\<rparr>"

definition test_channel :: "(complex, unit) channel" where
  "test_channel =
     \<lparr>linear_pll = True, linear_square = False, linear_agc = True, linear_env = False,
      linear_rotations = 5, linear_cphase = 0, linear_pll_lock = False, linear_lock_timer = 0,
      linear_loop_bw = Fin 5, linear_hangtime = 55, linear_threshold = Fin (1 / 4),
      linear_recovery_rate = Fin 2, pll_pll = 1, pll_was_on = False, pll_lock_count = 0,
      sig_snr = Fin 0, sig_foffset = Fin 0, sig_bb_power = Fin 4, sig_n0 = Fin 0,
      fm_squelch_open = Fin 4, fm_squelch_close = Fin 2,
      filter_min_IF = Fin (- 5000), filter_max_IF = Fin 5000,
      tune_shift = Fin 0, tune_freq = Fin 7000000, shift = (),
      output_gain = Fin 1, output_headroom = Fin 1, output_channels = 1,
      output_samprate = 12000, output_energy = Fin 0, output_sum_gain_sq = Fin 0,
      hangcount = 0\<rparr>"

definition test_block :: block_input where
  "test_block =
     \<lparr>blk_samples = [Complex 3 1, Complex 3 (- 1)], blk_bb_power = Fin 4, blk_n0 = Fin 0,
      blk_send_result = 0\<rparr>"

section \<open>Properties of the status packet encoders\<close>

subsection \<open>Suppression of leading zero bytes\<close>

lemma top_byte_mask: "(0xff00000000000000 :: 64 word) = NOT (mask 56)"
  by (simp add: mask_eq_exp_minus_1)

lemma push_bit_next: "n < 8 \<Longrightarrow> push_bit 8 (push_bit (8 * (7 - n)) x0) = push_bit (8 * (8 - n)) (x0::64 word)"
proof -
  assume "n < 8"
  then have "8 + 8 * (7 - n) = 8 * (8 - n)" by arith
  then show ?thesis by (simp add: push_bit_push_bit)
qed

lemma high_bits_clear: "take_bit k (x::64 word) = x \<Longrightarrow> k \<le> i \<Longrightarrow> \<not> bit x i"
  by (metis bit_take_bit_iff not_le)

lemma top_byte_test:
  fixes x0 :: "64 word"
  assumes "n < 8" "take_bit (8 * Suc n) x0 = x0"
  shows "(push_bit (8 * (7 - n)) x0 AND 0xff00000000000000 = 0) \<longleftrightarrow> take_bit (8 * n) x0 = x0"
proof
  assume z: "push_bit (8 * (7 - n)) x0 AND 0xff00000000000000 = 0"
  show "take_bit (8 * n) x0 = x0"
  proof (rule bit_word_eqI)
    fix i assume "i < LENGTH(64)"
    show "bit (take_bit (8 * n) x0) i = bit x0 i"
    proof (cases "i < 8 * n")
      case True then show ?thesis by (simp add: bit_take_bit_iff)
    next
      case False
      have "\<not> bit x0 i"
      proof (cases "i < 8 * Suc n")
        case True
        from z have "\<not> bit (push_bit (8 * (7 - n)) x0 AND NOT (mask 56)) (i + 8 * (7 - n))"
          unfolding top_byte_mask by simp
        moreover have "56 \<le> i + 8 * (7 - n)" "i + 8 * (7 - n) < 64"
          using False True assms(1) by auto
        ultimately show ?thesis
          by (simp add: bit_and_iff bit_not_iff bit_mask_iff bit_push_bit_iff)
      next
        case False then show ?thesis using high_bits_clear[OF assms(2)] by simp
      qed
      then show ?thesis by (simp add: bit_take_bit_iff)
    qed
  qed
next
  assume t: "take_bit (8 * n) x0 = x0"
  show "push_bit (8 * (7 - n)) x0 AND 0xff00000000000000 = 0"
    unfolding top_byte_mask
  proof (rule bit_word_eqI)
    fix i assume "i < LENGTH(64)"
    show "bit (push_bit (8 * (7 - n)) x0 AND NOT (mask 56)) i = bit (0::64 word) i"
    proof (cases "i < 56")
      case True
      then show ?thesis by (simp add: bit_and_iff bit_not_iff bit_mask_iff)
    next
      case False
      then have "8 * n \<le> i - 8 * (7 - n)" using assms(1) by arith
      then have "\<not> bit x0 (i - 8 * (7 - n))" by (rule high_bits_clear[OF t])
      then show ?thesis by (simp add: bit_and_iff bit_push_bit_iff)
    qed
  qed
qed

lemma strip_leading_inv:
  fixes x0 :: "64 word"
  assumes "n \<le> 8" "take_bit (8 * n) x0 = x0"
    and "strip_leading n (push_bit (8 * (8 - n)) x0) = (l, x')"
  shows "l \<le> n \<and> x' = push_bit (8 * (8 - l)) x0 \<and> take_bit (8 * l) x0 = x0
         \<and> (0 < l \<longrightarrow> take_bit (8 * (l - 1)) x0 \<noteq> x0)"
  using assms
proof (induction n)
  case 0
  then show ?case by simp
next
  case (Suc n)
  have n: "n < 8" using Suc.prems(1) by simp
  have e: "8 * (8 - Suc n) = 8 * (7 - n)" by simp
  show ?case
  proof (cases "take_bit (8 * n) x0 = x0")
    case True
    then have z: "push_bit (8 * (7 - n)) x0 AND 0xff00000000000000 = 0"
      using top_byte_test[OF n Suc.prems(2)] by simp
    have "strip_leading n (push_bit (8 * (8 - n)) x0) = (l, x')"
      using Suc.prems(3) z push_bit_next[OF n, of x0] unfolding e by simp
    from Suc.IH[OF _ True this] n show ?thesis by auto
  next
    case False
    then have z: "push_bit (8 * (7 - n)) x0 AND 0xff00000000000000 \<noteq> 0"
      using top_byte_test[OF n Suc.prems(2)] by simp
    then have "l = Suc n" "x' = push_bit (8 * (8 - Suc n)) x0"
      using Suc.prems(3) unfolding e by auto
    then show ?thesis using False Suc.prems(2) by simp
  qed
qed



lemma write_bytes_ptr: "write_bytes n mem cp x = (mem', cp') \<Longrightarrow> cp' = cp + n"
proof (induction n arbitrary: mem cp x)
  case 0
  then show ?case by simp
next
  case (Suc n)
  from Suc.prems
  have w: "write_bytes n (mem(cp := ucast (drop_bit 56 x))) (Suc cp) (push_bit 8 x) = (mem', cp')"
    by simp
  from Suc.IH[OF w] show ?case by simp
qed

lemma write_bytes_frame:
  "write_bytes n mem cp x = (mem', cp') \<Longrightarrow> a < cp \<or> cp + n \<le> a \<Longrightarrow> mem' a = mem a"
proof (induction n arbitrary: mem cp x)
  case 0
  then show ?case by simp
next
  case (Suc n)
  from Suc.prems(1)
  have w: "write_bytes n (mem(cp := ucast (drop_bit 56 x))) (Suc cp) (push_bit 8 x) = (mem', cp')"
    by simp
  have "mem' a = (mem(cp := ucast (drop_bit 56 x))) a"
    using Suc.IH[OF w] Suc.prems(2) by auto
  then show ?case using Suc.prems(2) by auto
qed

lemma write_bytes_payload:
  "write_bytes n mem cp x = (mem', cp') \<Longrightarrow> i < n \<Longrightarrow>
     mem' (cp + i) = ucast (drop_bit 56 (push_bit (8 * i) x))"
proof (induction n arbitrary: mem cp x i)
  case 0
  then show ?case by simp
next
  case (Suc n)
  from Suc.prems(1)
  have w: "write_bytes n (mem(cp := ucast (drop_bit 56 x))) (Suc cp) (push_bit 8 x) = (mem', cp')"
    by simp
  show ?case
  proof (cases i)
    case 0
    have "mem' cp = (mem(cp := ucast (drop_bit 56 x))) cp"
      by (rule write_bytes_frame[OF w]) simp
    then show ?thesis using 0 by simp
  next
    case (Suc j)
    then have "j < n" using Suc.prems(2) by simp
    from Suc.IH[OF w this]
    have "mem' (Suc cp + j) = ucast (drop_bit 56 (push_bit (8 * j) (push_bit 8 x)))" .
    moreover have "push_bit (8 * j) (push_bit 8 x) = push_bit (8 * Suc j) x"
      by (simp add: push_bit_push_bit add.commute)
    ultimately show ?thesis using Suc by simp
  qed
qed

lemma top_byte_of_shifted:
  fixes x :: "64 word"
  assumes "s \<le> 56"
  shows "(ucast (drop_bit 56 (push_bit s x)) :: byte) = ucast (drop_bit (56 - s) x)"
proof (rule bit_word_eqI)
  fix j assume "j < LENGTH(8)"
  then have j: "j < 8" by simp
  have a: "56 + j - s = 56 - s + j" "s \<le> 56 + j" "56 + j < 64" using assms j by auto
  have "bit (ucast (drop_bit 56 (push_bit s x)) :: byte) j = bit x (56 + j - s)"
    using j a(2,3) by (simp add: bit_ucast_iff bit_drop_bit_eq bit_push_bit_iff)
  moreover have "bit (ucast (drop_bit (56 - s) x) :: byte) j = bit x (56 - s + j)"
    using j by (simp add: bit_ucast_iff bit_drop_bit_eq)
  ultimately show "bit (ucast (drop_bit 56 (push_bit s x)) :: byte) j
                 = bit (ucast (drop_bit (56 - s) x) :: byte) j"
    using a(1) by simp
qed

lemma append_low_byte:
  fixes y :: "64 word"
  shows "push_bit 8 (drop_bit 8 y) OR ucast (ucast y :: byte) = y"
proof (rule bit_word_eqI)
  fix i assume "i < LENGTH(64)"
  then have i: "i < 64" by simp
  show "bit (push_bit 8 (drop_bit 8 y) OR ucast (ucast y :: byte)) i = bit y i"
  proof (cases "i < 8")
    case True
    then show ?thesis using i by (simp add: bit_or_iff bit_push_bit_iff bit_ucast_iff)
  next
    case False
    then have "8 + (i - 8) = i" by simp
    then show ?thesis using i False
      by (simp add: bit_or_iff bit_push_bit_iff bit_ucast_iff bit_drop_bit_eq)
  qed
qed

lemma decode_loop_bytes:
  fixes x :: "64 word"
  assumes "\<And>i. i < n \<Longrightarrow> mem (cp + i) = ucast (drop_bit (8 * (n - 1 - i)) x)"
  shows "decode_loop mem cp (int n) (drop_bit (8 * n) x) = x"
  using assms
proof (induction n arbitrary: cp)
  case 0
  then show ?case by simp
next
  case (Suc n)
  have m0: "mem cp = ucast (drop_bit (8 * n) x)" using Suc.prems[of 0] by simp
  have rest: "\<And>i. i < n \<Longrightarrow> mem (Suc cp + i) = ucast (drop_bit (8 * (n - 1 - i)) x)"
  proof -
    fix i assume i: "i < n"
    then have "mem (cp + Suc i) = ucast (drop_bit (8 * (Suc n - 1 - Suc i)) x)"
      using Suc.prems[of "Suc i"] by simp
    then show "mem (Suc cp + i) = ucast (drop_bit (8 * (n - 1 - i)) x)"
      by simp
  qed
  have d: "drop_bit (8 * Suc n) x = drop_bit 8 (drop_bit (8 * n) x)"
    by (simp add: drop_bit_drop_bit add.commute)
  have "decode_loop mem cp (int (Suc n)) (drop_bit (8 * Suc n) x)
      = decode_loop mem (Suc cp) (int n) (push_bit 8 (drop_bit (8 * Suc n) x) OR ucast (mem cp))"
    by (subst decode_loop.simps) simp
  also have "push_bit 8 (drop_bit (8 * Suc n) x) OR ucast (mem cp) = drop_bit (8 * n) x"
    unfolding m0 d by (rule append_low_byte)
  also have "decode_loop mem (Suc cp) (int n) (drop_bit (8 * n) x) = x"
    by (rule Suc.IH[OF rest])
  finally show ?case .
qed


lemma take_bit_self_unat:
  fixes x :: "64 word"
  shows "take_bit k x = x \<longleftrightarrow> unat x < 2 ^ k"
  by (metis take_bit_nat_eq_self_iff unsigned_take_bit_eq word_eq_iff_unsigned)

lemma encode_int64_zero:
  "encode_int64 mem buf type 0 = (mem(buf := of_nat type, Suc buf := 0), Suc (Suc buf), 2)"
  by (simp add: encode_int64_def)

lemma encode_int64_nonzero:
  assumes "x \<noteq> 0" and "encode_int64 mem buf type x = (mem', buf', r)"
  shows "\<exists>len. 0 < len \<and> len \<le> 8 \<and>
    unat x < 2 ^ (8 * len) \<and> 2 ^ (8 * (len - 1)) \<le> unat x \<and>
    mem' buf = of_nat type \<and> mem' (Suc buf) = of_nat len \<and>
    (\<forall>i<len. mem' (buf + 2 + i) = ucast (drop_bit (8 * (len - 1 - i)) x)) \<and>
    buf' = buf + 2 + len \<and> r = 2 + int len \<and>
    (\<forall>a. a < buf \<or> buf + 2 + len \<le> a \<longrightarrow> mem' a = mem a) \<and>
    decode_int mem' (buf + 2) (int len) = x"
proof -
  obtain l x' where s: "strip_leading 8 x = (l, x')" by (cases "strip_leading 8 x")
  define mem1 where "mem1 = mem(buf := of_nat type, Suc buf := of_nat l)"
  obtain m c where w: "write_bytes l mem1 (Suc (Suc buf)) x' = (m, c)"
    by (cases "write_bytes l mem1 (Suc (Suc buf)) x'")
  have res: "mem' = m" "buf' = c" "r = 2 + int l"
    using assms s w by (simp_all add: encode_int64_def mem1_def)
  have s': "strip_leading 8 (push_bit (8 * (8 - 8)) x) = (l, x')" using s by simp
  have t8: "take_bit (8 * 8) x = x" by (simp add: take_bit_word_eq_self)
  from strip_leading_inv[OF order_refl t8 s']
  have inv: "l \<le> 8" "x' = push_bit (8 * (8 - l)) x" "take_bit (8 * l) x = x"
    "0 < l \<longrightarrow> take_bit (8 * (l - 1)) x \<noteq> x"
    by simp_all
  have lpos: "0 < l"
  proof (rule ccontr)
    assume "\<not> 0 < l"
    then have "take_bit 0 x = x" using inv(3) by simp
    then show False using assms(1) by simp
  qed
  have b1: "unat x < 2 ^ (8 * l)"
    using inv(1,3) by (simp add: take_bit_self_unat)
  have b2: "2 ^ (8 * (l - 1)) \<le> unat x"
    using inv(1,4) lpos by (simp add: take_bit_self_unat)
  have c: "c = buf + 2 + l" using write_bytes_ptr[OF w] by simp
  have fr: "\<And>a. a < Suc (Suc buf) \<or> Suc (Suc buf) + l \<le> a \<Longrightarrow> m a = mem1 a"
    by (rule write_bytes_frame[OF w])
  have pay: "m (buf + 2 + i) = ucast (drop_bit (8 * (l - 1 - i)) x)" if "i < l" for i
  proof -
    have "m (Suc (Suc buf) + i) = ucast (drop_bit 56 (push_bit (8 * i) x'))"
      by (rule write_bytes_payload[OF w that])
    moreover have "push_bit (8 * i) x' = push_bit (8 * i + 8 * (8 - l)) x"
      unfolding inv(2) by (simp add: push_bit_push_bit)
    moreover have "8 * i + 8 * (8 - l) \<le> 56" "56 - (8 * i + 8 * (8 - l)) = 8 * (l - 1 - i)"
      using that inv(1) by auto
    ultimately show ?thesis
      using top_byte_of_shifted[of "8 * i + 8 * (8 - l)" x] by simp
  qed
  have dz: "drop_bit (8 * l) x = 0"
  proof -
    have "drop_bit (8 * l) (take_bit (8 * l) x) = 0" by (simp add: drop_bit_take_bit)
    then show ?thesis using inv(3) by simp
  qed
  have dec: "decode_int m (buf + 2) (int l) = x"
    unfolding decode_int_def
    using decode_loop_bytes[of l m "buf + 2" x] pay dz by simp
  have "mem' buf = of_nat type" using fr[of buf] res(1) by (simp add: mem1_def)
  moreover have "mem' (Suc buf) = of_nat l" using fr[of "Suc buf"] res(1) by (simp add: mem1_def)
  moreover have "\<forall>i<l. mem' (buf + 2 + i) = ucast (drop_bit (8 * (l - 1 - i)) x)"
    using pay res(1) by simp
  moreover have "buf' = buf + 2 + l" using c res(2) by simp
  moreover have "\<forall>a. a < buf \<or> buf + 2 + l \<le> a \<longrightarrow> mem' a = mem a"
    using fr res(1) by (auto simp add: mem1_def)
  moreover have "decode_int mem' (buf + 2) (int l) = x" using dec res(1) by simp
  ultimately show ?thesis using lpos inv(1) b1 b2 res(3) by blast
qed

lemma strip_leading_numeral:
  "strip_leading (numeral k) x =
     (if x AND 0xff00000000000000 = 0 then strip_leading (pred_numeral k) (push_bit 8 x)
      else (numeral k, x))"
  by (simp add: numeral_eq_Suc)

lemma write_bytes_numeral:
  "write_bytes (numeral k) mem cp x =
     write_bytes (pred_numeral k) (mem(cp := ucast (drop_bit 56 x))) (Suc cp) (push_bit 8 x)"
  by (simp add: numeral_eq_Suc)



text \<open>
  Claim C9. For every 64-bit \<open>x\<close>, \<open>encode_int64\<close> writes the type byte, then a length
  byte \<open>len\<close> with \<open>len \<le> 8\<close>, where \<open>len = 0\<close> exactly when \<open>x = 0\<close> and otherwise
  \<open>len\<close> is the least number of bytes that hold \<open>x\<close>, then the \<open>len\<close> payload bytes,
  most significant first; it advances the pointer by \<open>2 + len\<close>, returns \<open>2 + len\<close>
  and leaves the rest of the memory alone; \<open>decode_int\<close> on the payload gives \<open>x\<close> back.
\<close>

theorem encode_int64_roundtrip:
  "case encode_int64 mem buf type x of (mem', buf', r) \<Rightarrow>
     (let len = unat (mem' (Suc buf)) in
        mem' buf = of_nat type \<and> len \<le> 8 \<and> (len = 0 \<longleftrightarrow> x = 0) \<and>
        unat x < 2 ^ (8 * len) \<and> (0 < len \<longrightarrow> 2 ^ (8 * (len - 1)) \<le> unat x) \<and>
        (\<forall>i<len. mem' (buf + 2 + i) = ucast (drop_bit (8 * (len - 1 - i)) x)) \<and>
        buf' = buf + 2 + len \<and> r = 2 + int len \<and>
        (\<forall>a. a < buf \<or> buf + 2 + len \<le> a \<longrightarrow> mem' a = mem a) \<and>
        decode_int mem' (buf + 2) (int len) = x)"
proof (cases "x = 0")
  case True
  then show ?thesis by (simp add: encode_int64_zero decode_int_def)
next
  case False
  obtain mem' buf' r where e: "encode_int64 mem buf type x = (mem', buf', r)"
    by (cases "encode_int64 mem buf type x")
  from encode_int64_nonzero[OF False e] obtain len where l: "0 < len" "len \<le> 8"
    "unat x < 2 ^ (8 * len)" "2 ^ (8 * (len - 1)) \<le> unat x"
    "mem' buf = of_nat type" "mem' (Suc buf) = of_nat len"
    "\<forall>i<len. mem' (buf + 2 + i) = ucast (drop_bit (8 * (len - 1 - i)) x)"
    "buf' = buf + 2 + len" "r = 2 + int len"
    "\<forall>a. a < buf \<or> buf + 2 + len \<le> a \<longrightarrow> mem' a = mem a"
    "decode_int mem' (buf + 2) (int len) = x"
    by blast
  have u: "unat (mem' (Suc buf)) = len"
    using l(2,6) by (simp add: unat_of_nat)
  show ?thesis
    unfolding e prod.case Let_def u using False l by simp
qed




theorem encode_int64_roundtrip_witness:
  "(case encode_int64 (\<lambda>_. 0) 10 7 0x1234 of (mem', buf', r) \<Rightarrow>
      unat (mem' (Suc 10)) = 2 \<and> mem' 12 = 0x12 \<and> mem' 13 = 0x34
      \<and> buf' = 14 \<and> r = 4 \<and> decode_int mem' 12 2 = 0x1234)"
proof -
  obtain mem' buf' r where e: "encode_int64 (\<lambda>_. 0) 10 7 0x1234 = (mem', buf', r)"
    by (cases "encode_int64 (\<lambda>_. 0) 10 7 (0x1234 :: 64 word)")
  have "unat (fst (encode_int64 (\<lambda>_. 0) 10 7 0x1234) (Suc 10)) = 2"
    by (simp add: encode_int64_def strip_leading_numeral write_bytes_numeral)
  then have len: "unat (mem' (Suc 10)) = 2" unfolding e by simp
  have t: "(\<forall>i<2. mem' (10 + 2 + i) = ucast (drop_bit (8 * (2 - 1 - i)) (0x1234 :: 64 word)))
      \<and> buf' = 10 + 2 + 2 \<and> r = 2 + int 2 \<and> decode_int mem' (10 + 2) (int 2) = 0x1234"
    using encode_int64_roundtrip [where mem = "\<lambda>_. 0" and buf = 10 and type = 7 and x = "0x1234"]
    unfolding e prod.case Let_def len by blast
  then have p: "\<And>i. i < 2 \<Longrightarrow> mem' (10 + 2 + i) = ucast (drop_bit (8 * (2 - 1 - i)) (0x1234 :: 64 word))"
    by blast
  have "mem' 12 = 0x12" using p[of 0] by simp
  moreover have "mem' 13 = 0x34" using p[of 1] by simp
  moreover have "buf' = 14" "r = 4" "decode_int mem' 12 2 = 0x1234" using t by simp_all
  ultimately show ?thesis unfolding e prod.case using len by simp
qed


text \<open>
  Claim C10. For a NaN argument \<open>encode_float\<close> and \<open>encode_double\<close> return 0, write
  nothing and leave the pointer where it was; so the signal-to-noise ratio of a block
  with no quadrature power, which is NaN, adds nothing to a status packet.
\<close>

theorem encode_nan_omitted:
  "encode_float float_bits mem buf type NaN = (mem, buf, 0)
   \<and> encode_double double_bits mem buf type NaN = (mem, buf, 0)
   \<and> encode_float float_bits mem buf type (pll_snr signal 0) = (mem, buf, 0)"
  by (simp add: encode_float_def encode_double_def isnan_def pll_snr_def)

theorem encode_nan_omitted_witness:
  "encode_float (\<lambda>_. 1) (\<lambda>_. 0) 10 7 NaN = (\<lambda>_. 0, 10, 0)
   \<and> encode_double (\<lambda>_. 1) (\<lambda>_. 0) 10 7 NaN = (\<lambda>_. 0, 10, 0)
   \<and> encode_float (\<lambda>_. 1) (\<lambda>_. 0) 10 7 (pll_snr 3 0) = (\<lambda>_. 0, 10, 0)"
  using encode_nan_omitted [where float_bits = "\<lambda>_. 1" and double_bits = "\<lambda>_. 1"
      and mem = "\<lambda>_. 0" and buf = 10 and type = 7 and signal = 3]
  by simp


section \<open>Properties of the linear demodulator\<close>

subsection \<open>The concrete channel\<close>

lemma still_simps:
  "pll_phasor still_externals p = p" "run_pll still_externals p x = p"
  "set_pll_params still_externals p a b = p" "reset_integrator still_externals p = p"
  "pll_freq still_externals p = Fin 0"
  "carg still_externals z = (if Im z < 0 then - 3 else if Re z < 0 then 3 else 0)"
  "set_osc still_externals osc f r = osc" "step_osc still_externals osc = (1, osc)"
  "osc_freq still_externals osc = Fin 0"
  by (simp_all add: still_externals_def)

lemma test_channel_simps:
  "linear_pll test_channel" "\<not> linear_square test_channel" "linear_agc test_channel"
  "\<not> linear_env test_channel" "linear_rotations test_channel = 5"
  "linear_cphase test_channel = 0" "\<not> linear_pll_lock test_channel"
  "linear_hangtime test_channel = 55" "linear_threshold test_channel = Fin (1 / 4)"
  "linear_recovery_rate test_channel = Fin 2" "pll_pll test_channel = 1"
  "\<not> pll_was_on test_channel" "pll_lock_count test_channel = 0"
  "sig_bb_power test_channel = Fin 4" "sig_n0 test_channel = Fin 0"
  "fm_squelch_open test_channel = Fin 4" "fm_squelch_close test_channel = Fin 2"
  "filter_min_IF test_channel = Fin (- 5000)" "filter_max_IF test_channel = Fin 5000"
  "tune_shift test_channel = Fin 0" "tune_freq test_channel = Fin 7000000"
  "output_gain test_channel = Fin 1" "output_headroom test_channel = Fin 1"
  "output_channels test_channel = 1" "output_samprate test_channel = 12000"
  "output_energy test_channel = Fin 0" "output_sum_gain_sq test_channel = Fin 0"
  "hangcount test_channel = 0" "linear_loop_bw test_channel = Fin 5"
  by (simp_all add: test_channel_def)


lemma test_pll_samples:
  "pll_samples still_externals False [Complex 3 1, Complex 3 (- 1)] 1 0 0
     = ([Complex 3 1, Complex 3 (- 1)], 1, 18, 2)"
  by (simp add: still_simps Let_def)



subsection \<open>Carrier tracking\<close>

lemma pll_samples_length:
  "pll_samples ext sq buffer pll sg ns = (buffer', pll', sg', ns') \<Longrightarrow> length buffer' = length buffer"
proof (induction buffer arbitrary: pll sg ns buffer' pll' sg' ns')
  case Nil
  then show ?case by simp
next
  case (Cons b buffer)
  then show ?case
    by (auto simp add: Let_def split: prod.splits)
qed

lemma pll_samples_power:
  "pll_samples ext sq buffer pll sg ns = (buffer', pll', sg', ns') \<Longrightarrow>
     sg' = sg + (\<Sum>s\<leftarrow>buffer'. Re s * Re s) \<and> ns' = ns + (\<Sum>s\<leftarrow>buffer'. Im s * Im s)"
proof (induction buffer arbitrary: pll sg ns buffer' pll' sg' ns')
  case Nil
  then show ?case by simp
next
  case (Cons b buffer)
  then show ?case
    by (fastforce simp add: Let_def split: prod.splits)
qed

lemma pll_snr_value:
  "pll_snr signal noise = (if noise \<noteq> 0 then Fin (max (signal / noise - 1) 0) else NaN)"
  by (simp add: pll_snr_def fsub_def Let_def max_def)

lemma lock_detector_frame:
  "sig_snr (lock_detector l N chan) = sig_snr chan"
  "linear_rotations (lock_detector l N chan) = linear_rotations chan"
  "linear_cphase (lock_detector l N chan) = linear_cphase chan"
  "pll_pll (lock_detector l N chan) = pll_pll chan"
  "pll_was_on (lock_detector l N chan) = pll_was_on chan"
  by (simp_all add: lock_detector_def Let_def)

lemma phase_update_frame:
  "sig_snr (phase_update ext chan) = sig_snr chan"
  "pll_lock_count (phase_update ext chan) = pll_lock_count chan"
  "linear_pll_lock (phase_update ext chan) = linear_pll_lock chan"
  "linear_lock_timer (phase_update ext chan) = linear_lock_timer chan"
  "pll_pll (phase_update ext chan) = pll_pll chan"
  "pll_was_on (phase_update ext chan) = pll_was_on chan"
  by (simp_all add: phase_update_def Let_def)


lemma pll_update_on:
  assumes "linear_pll chan"
    and "pll_samples ext (linear_square chan) buffer
           (set_pll_params ext
              (if pll_was_on chan then pll_pll chan else reset_integrator ext (pll_pll chan))
              (linear_loop_bw chan) DEFAULT_PLL_DAMPING) 0 0 = (buffer', pll, signal, noise)"
  shows "pll_update ext lock_limit chan buffer =
     (let c0 = (if pll_was_on chan then chan
                else chan\<lparr>linear_rotations := 0,
                          pll_pll := reset_integrator ext (pll_pll chan), pll_was_on := True\<rparr>);
          c1 = c0\<lparr>pll_pll := pll, sig_snr := pll_snr signal noise\<rparr>;
          c2 = phase_update ext (lock_detector lock_limit (int (length buffer)) c1)
      in (c2\<lparr>sig_foffset := pll_freq ext (pll_pll c2)\<rparr>, buffer'))"
  using assms
  by (auto simp add: pll_update_def Let_def split: prod.splits)

lemma pll_update_cases:
  assumes "linear_pll chan" and "pll_update ext lock_limit chan buffer = (chan', buffer')"
  obtains pll signal noise c1 where
    "signal = (\<Sum>s\<leftarrow>buffer'. Re s * Re s)" "noise = (\<Sum>s\<leftarrow>buffer'. Im s * Im s)"
    "length buffer' = length buffer"
    "c1 = (if pll_was_on chan then chan
           else chan\<lparr>linear_rotations := 0,
                     pll_pll := reset_integrator ext (pll_pll chan), pll_was_on := True\<rparr>)
          \<lparr>pll_pll := pll, sig_snr := pll_snr signal noise\<rparr>"
    "chan' = (phase_update ext (lock_detector lock_limit (int (length buffer)) c1))
             \<lparr>sig_foffset := pll_freq ext pll\<rparr>"
proof -
  obtain b pll signal noise where
    ps: "pll_samples ext (linear_square chan) buffer
           (set_pll_params ext
              (if pll_was_on chan then pll_pll chan else reset_integrator ext (pll_pll chan))
              (linear_loop_bw chan) DEFAULT_PLL_DAMPING) 0 0 = (b, pll, signal, noise)"
    by (metis prod_cases4)
  define c1 where "c1 = (if pll_was_on chan then chan
           else chan\<lparr>linear_rotations := 0,
                     pll_pll := reset_integrator ext (pll_pll chan), pll_was_on := True\<rparr>)
          \<lparr>pll_pll := pll, sig_snr := pll_snr signal noise\<rparr>"
  have p1: "pll_pll c1 = pll" by (simp add: c1_def)
  from pll_update_on[OF assms(1) ps, of lock_limit] assms(2)
  have e: "chan' = (phase_update ext (lock_detector lock_limit (int (length buffer)) c1))
             \<lparr>sig_foffset := pll_freq ext pll\<rparr>" "buffer' = b"
    by (simp_all add: Let_def c1_def phase_update_frame lock_detector_frame)
  from pll_samples_power[OF ps] pll_samples_length[OF ps] e(2)
  have "signal = (\<Sum>s\<leftarrow>buffer'. Re s * Re s)" "noise = (\<Sum>s\<leftarrow>buffer'. Im s * Im s)"
    "length buffer' = length buffer"
    by simp_all
  then show thesis using that c1_def e(1) by blast
qed

lemma pll_update_snr:
  assumes "linear_pll chan" and "pll_update ext lock_limit chan buffer = (chan', buffer')"
  shows "sig_snr chan' =
     (let signal = (\<Sum>s\<leftarrow>buffer'. Re s * Re s);
          noise = (\<Sum>s\<leftarrow>buffer'. Im s * Im s)
      in if noise \<noteq> 0 then Fin (max (signal / noise - 1) 0) else NaN)"
proof -
  from assms obtain pll signal noise c1 where
    sn: "signal = (\<Sum>s\<leftarrow>buffer'. Re s * Re s)" "noise = (\<Sum>s\<leftarrow>buffer'. Im s * Im s)"
    and c1: "c1 = (if pll_was_on chan then chan
           else chan\<lparr>linear_rotations := 0,
                     pll_pll := reset_integrator ext (pll_pll chan), pll_was_on := True\<rparr>)
          \<lparr>pll_pll := pll, sig_snr := pll_snr signal noise\<rparr>"
    and c': "chan' = (phase_update ext (lock_detector lock_limit (int (length buffer)) c1))
             \<lparr>sig_foffset := pll_freq ext pll\<rparr>"
    by (rule pll_update_cases)
  have "sig_snr chan' = sig_snr c1"
    unfolding c' by (simp add: phase_update_frame lock_detector_frame)
  also have "\<dots> = pll_snr signal noise" unfolding c1 by simp
  finally show ?thesis unfolding sn by (simp add: pll_snr_value Let_def)
qed



lemma pll_update_pll:
  assumes "linear_pll chan" and "pll_update ext lock_limit chan buffer = (chan', buffer')"
  shows "pll_pll chan' =
     fst (snd (pll_samples ext (linear_square chan) buffer
           (set_pll_params ext
              (if pll_was_on chan then pll_pll chan else reset_integrator ext (pll_pll chan))
              (linear_loop_bw chan) DEFAULT_PLL_DAMPING) 0 0))"
  using assms
  by (auto simp add: pll_update_def Let_def phase_update_frame lock_detector_frame
      split: prod.splits)

lemma pll_samples_still:
  "fst (snd (pll_samples still_externals sq buffer p sg ns)) = p"
  by (induction buffer arbitrary: sg ns)
     (simp_all add: Let_def split_beta still_externals_def)




lemma fless_NaN [simp]: "\<not> fless NaN y" "\<not> fless x NaN"
  by (cases y, simp_all) (cases x, simp_all)


lemma lock_detector_lock:
  "linear_pll_lock (lock_detector l N c) =
     (if fless (sig_snr c) (fm_squelch_close c)
        then (if pll_lock_count c - N \<le> - l then False else linear_pll_lock c)
      else if fgreater (sig_snr c) (fm_squelch_open c)
        then (if l \<le> pll_lock_count c + N then True else linear_pll_lock c)
      else linear_pll_lock c)"
  by (simp add: lock_detector_def Let_def)


lemma lock_detector_thresholds:
  "fm_squelch_close (lock_detector l N c) = fm_squelch_close c"
  "fm_squelch_open (lock_detector l N c) = fm_squelch_open c"
  by (simp_all add: lock_detector_def Let_def)





lemma pll_update_lock:
  assumes "linear_pll chan" and "pll_update ext lock_limit chan buffer = (chan', buffer')"
  shows "linear_pll_lock chan' =
     (if fless (sig_snr chan') (fm_squelch_close chan)
        then (if pll_lock_count chan - int (length buffer) \<le> - lock_limit then False
              else linear_pll_lock chan)
      else if fgreater (sig_snr chan') (fm_squelch_open chan)
        then (if lock_limit \<le> pll_lock_count chan + int (length buffer) then True
              else linear_pll_lock chan)
      else linear_pll_lock chan)"
proof -
  from assms obtain pll signal noise c1 where
    c1: "c1 = (if pll_was_on chan then chan
           else chan\<lparr>linear_rotations := 0,
                     pll_pll := reset_integrator ext (pll_pll chan), pll_was_on := True\<rparr>)
          \<lparr>pll_pll := pll, sig_snr := pll_snr signal noise\<rparr>"
    and c': "chan' = (phase_update ext (lock_detector lock_limit (int (length buffer)) c1))
             \<lparr>sig_foffset := pll_freq ext pll\<rparr>"
    by (rule pll_update_cases)
  have pre: "pll_lock_count c1 = pll_lock_count chan" "linear_pll_lock c1 = linear_pll_lock chan"
    "fm_squelch_close c1 = fm_squelch_close chan" "fm_squelch_open c1 = fm_squelch_open chan"
    unfolding c1 by simp_all
  have snr: "sig_snr chan' = sig_snr c1"
    unfolding c' by (simp add: phase_update_frame lock_detector_frame)
  have "linear_pll_lock chan' = linear_pll_lock (lock_detector lock_limit (int (length buffer)) c1)"
    unfolding c' by (simp add: phase_update_frame)
  then show ?thesis
    unfolding lock_detector_lock pre snr .
qed

lemma still_pll_buffer:
  assumes "linear_pll c" "\<not> linear_square c" "pll_pll c = 1"
  shows "snd (pll_update still_externals l c [Complex 3 1, Complex 3 (- 1)])
     = [Complex 3 1, Complex 3 (- 1)]"
proof -
  have ps: "pll_samples still_externals (linear_square c) [Complex 3 1, Complex 3 (- 1)]
           (set_pll_params still_externals
              (if pll_was_on c then pll_pll c
               else reset_integrator still_externals (pll_pll c))
              (linear_loop_bw c) DEFAULT_PLL_DAMPING) 0 0
        = ([Complex 3 1, Complex 3 (- 1)], 1, 18, 2)"
    using assms(2,3) by (simp add: still_simps test_pll_samples del: pll_samples.simps)
  show ?thesis
    by (simp only: pll_update_on[OF assms(1) ps] Let_def snd_conv)
qed




lemma phase_update_rotations:
  "linear_rotations (phase_update ext c) =
     (let phase_diff = carg ext (pll_phasor ext (pll_pll c)) - linear_cphase c
      in if phase_diff > pi then linear_rotations c - 1
         else if phase_diff < - pi then linear_rotations c + 1 else linear_rotations c)"
  "linear_cphase (phase_update ext c) = carg ext (pll_phasor ext (pll_pll c))"
  by (simp_all add: phase_update_def Let_def)

lemma lock_detector_frame2:
  "linear_rotations (lock_detector l N c) = linear_rotations c"
  "linear_cphase (lock_detector l N c) = linear_cphase c"
  by (simp_all add: lock_detector_def Let_def)


text \<open>
  Claim C6. In a block with the PLL enabled the rotation counter, set to zero first when
  the PLL was off in the block before, goes down by one when the phase of the loop at the
  end of the block minus the recorded phase exceeds \<open>pi\<close>, up by one when the difference
  is below \<open>- pi\<close>, and stays otherwise: never more than one step per block. A block
  with the PLL disabled clears the flag that makes the next enabled block a cold start.
\<close>

theorem rotation_counter_step:
  assumes "pll_update ext lock_limit chan buffer = (chan', buffer')"
  shows "(linear_pll chan \<longrightarrow>
           (let base = (if pll_was_on chan then linear_rotations chan else 0);
                phase_diff = linear_cphase chan' - linear_cphase chan
            in linear_cphase chan' = carg ext (pll_phasor ext (pll_pll chan'))
               \<and> linear_rotations chan' =
                   (if phase_diff > pi then base - 1
                    else if phase_diff < - pi then base + 1 else base)
               \<and> \<bar>linear_rotations chan' - base\<bar> \<le> 1
               \<and> pll_was_on chan'))
       \<and> (\<not> linear_pll chan \<longrightarrow>
             linear_rotations chan' = linear_rotations chan \<and> \<not> pll_was_on chan')"
proof (cases "linear_pll chan")
  case False
  then show ?thesis using assms by (auto simp add: pll_update_def)
next
  case True
  from True assms obtain pll signal noise c1 where
    c1: "c1 = (if pll_was_on chan then chan
           else chan\<lparr>linear_rotations := 0,
                     pll_pll := reset_integrator ext (pll_pll chan), pll_was_on := True\<rparr>)
          \<lparr>pll_pll := pll, sig_snr := pll_snr signal noise\<rparr>"
    and c': "chan' = (phase_update ext (lock_detector lock_limit (int (length buffer)) c1))
             \<lparr>sig_foffset := pll_freq ext pll\<rparr>"
    by (rule pll_update_cases)
  have pre: "linear_rotations c1 = (if pll_was_on chan then linear_rotations chan else 0)"
    "linear_cphase c1 = linear_cphase chan" "pll_pll c1 = pll" "pll_was_on c1"
    unfolding c1 by simp_all
  have post: "pll_pll chan' = pll" "pll_was_on chan'"
    unfolding c' using pre(3,4) by (simp_all add: phase_update_frame lock_detector_frame)
  have cph: "linear_cphase chan' = carg ext (pll_phasor ext pll)"
    unfolding c' using pre(3) by (simp add: phase_update_rotations lock_detector_frame)
  have rot: "linear_rotations chan' =
     (let phase_diff = carg ext (pll_phasor ext pll) - linear_cphase chan
      in if phase_diff > pi then linear_rotations c1 - 1
         else if phase_diff < - pi then linear_rotations c1 + 1 else linear_rotations c1)"
    unfolding c' using pre(2,3)
    by (simp add: phase_update_rotations lock_detector_frame lock_detector_frame2 Let_def)
  show ?thesis
    using True rot cph post pre(1) by (simp add: Let_def)
qed
theorem rotation_counter_step_witness:
  "linear_rotations (fst (pll_update still_externals 2 test_channel (blk_samples test_block))) = 0
   \<and> linear_rotations
        (fst (pll_update still_externals 2
               (test_channel\<lparr>pll_was_on := True, pll_pll := - 1, linear_cphase := - 3\<rparr>)
               (blk_samples test_block))) = 4
   \<and> linear_rotations
        (fst (pll_update still_externals 2 (test_channel\<lparr>linear_pll := False\<rparr>)
               (blk_samples test_block))) = 5"
proof -
  let ?bl = "blk_samples test_block"
  obtain c b where u: "pll_update still_externals 2 test_channel ?bl = (c, b)"
    by (cases "pll_update still_externals 2 test_channel ?bl")
  have p: "pll_pll c = 1"
    using pll_update_pll[OF test_channel_simps(1) u] by (simp add: pll_samples_still still_simps test_channel_simps)
  from rotation_counter_step[OF u]
  have 1: "linear_rotations c = 0"
    by (simp add: Let_def test_channel_simps p still_simps)
  let ?t2 = "test_channel\<lparr>pll_was_on := True, pll_pll := - 1, linear_cphase := - 3\<rparr>"
  obtain c2 b2 where u2: "pll_update still_externals 2 ?t2 ?bl = (c2, b2)"
    by (cases "pll_update still_externals 2 ?t2 ?bl")
  have lp2: "linear_pll ?t2" by (simp add: test_channel_simps)
  have p2: "pll_pll c2 = - 1"
    using pll_update_pll[OF lp2 u2] by (simp add: pll_samples_still still_simps test_channel_simps)
  have "pi < 6" using pi_less_4 by simp
  with rotation_counter_step[OF u2]
  have 2: "linear_rotations c2 = 4"
    by (simp add: Let_def test_channel_simps p2 still_simps)
  let ?t3 = "test_channel\<lparr>linear_pll := False\<rparr>"
  obtain c3 b3 where u3: "pll_update still_externals 2 ?t3 ?bl = (c3, b3)"
    by (cases "pll_update still_externals 2 ?t3 ?bl")
  from rotation_counter_step[OF u3]
  have 3: "linear_rotations c3 = 5" by (simp add: test_channel_simps)
  show ?thesis using 1 2 3 u u2 u3 by simp
qed


subsection \<open>Gain control and the final pass\<close>

lemma fmul_one: "fmul g (Fin 1) = g"
  by (cases g) simp_all

lemma gain_loop_gain:
  "fst (snd (gain_loop f gc buffer g p)) = ((\<lambda>g. fmul g gc) ^^ length buffer) g"
proof (induction buffer arbitrary: g p)
  case Nil
  then show ?case by simp
next
  case (Cons b buffer)
  show ?case
    by (simp add: Let_def split_beta Cons.IH funpow_Suc_right del: funpow.simps)
qed

lemma final_pass_gain:
  "fst (snd (final_pass chan gc buffer)) = ((\<lambda>g. fmul g gc) ^^ length buffer) (output_gain chan)"
  by (simp add: final_pass_def gain_loop_gain)







lemma lock_detector_agc_frame:
  "linear_agc (lock_detector l N c) = linear_agc c"
  "linear_env (lock_detector l N c) = linear_env c"
  "linear_pll (lock_detector l N c) = linear_pll c"
  "linear_hangtime (lock_detector l N c) = linear_hangtime c"
  "linear_threshold (lock_detector l N c) = linear_threshold c"
  "linear_recovery_rate (lock_detector l N c) = linear_recovery_rate c"
  "sig_bb_power (lock_detector l N c) = sig_bb_power c"
  "sig_n0 (lock_detector l N c) = sig_n0 c"
  "filter_min_IF (lock_detector l N c) = filter_min_IF c"
  "filter_max_IF (lock_detector l N c) = filter_max_IF c"
  "tune_freq (lock_detector l N c) = tune_freq c"
  "output_gain (lock_detector l N c) = output_gain c"
  "output_headroom (lock_detector l N c) = output_headroom c"
  "output_channels (lock_detector l N c) = output_channels c"
  "output_energy (lock_detector l N c) = output_energy c"
  "output_sum_gain_sq (lock_detector l N c) = output_sum_gain_sq c"
  "hangcount (lock_detector l N c) = hangcount c"
  by (simp_all add: lock_detector_def Let_def)

lemma phase_update_agc_frame:
  "linear_agc (phase_update ext c) = linear_agc c"
  "linear_env (phase_update ext c) = linear_env c"
  "linear_pll (phase_update ext c) = linear_pll c"
  "linear_hangtime (phase_update ext c) = linear_hangtime c"
  "linear_threshold (phase_update ext c) = linear_threshold c"
  "linear_recovery_rate (phase_update ext c) = linear_recovery_rate c"
  "sig_bb_power (phase_update ext c) = sig_bb_power c"
  "sig_n0 (phase_update ext c) = sig_n0 c"
  "filter_min_IF (phase_update ext c) = filter_min_IF c"
  "filter_max_IF (phase_update ext c) = filter_max_IF c"
  "tune_freq (phase_update ext c) = tune_freq c"
  "output_gain (phase_update ext c) = output_gain c"
  "output_headroom (phase_update ext c) = output_headroom c"
  "output_channels (phase_update ext c) = output_channels c"
  "output_energy (phase_update ext c) = output_energy c"
  "output_sum_gain_sq (phase_update ext c) = output_sum_gain_sq c"
  "hangcount (phase_update ext c) = hangcount c"
  by (simp_all add: phase_update_def Let_def)

lemma pll_update_frame:
  "linear_agc (fst (pll_update ext l c buffer)) = linear_agc c"
  "linear_env (fst (pll_update ext l c buffer)) = linear_env c"
  "linear_pll (fst (pll_update ext l c buffer)) = linear_pll c"
  "linear_hangtime (fst (pll_update ext l c buffer)) = linear_hangtime c"
  "linear_threshold (fst (pll_update ext l c buffer)) = linear_threshold c"
  "linear_recovery_rate (fst (pll_update ext l c buffer)) = linear_recovery_rate c"
  "sig_bb_power (fst (pll_update ext l c buffer)) = sig_bb_power c"
  "sig_n0 (fst (pll_update ext l c buffer)) = sig_n0 c"
  "filter_min_IF (fst (pll_update ext l c buffer)) = filter_min_IF c"
  "filter_max_IF (fst (pll_update ext l c buffer)) = filter_max_IF c"
  "tune_freq (fst (pll_update ext l c buffer)) = tune_freq c"
  "output_gain (fst (pll_update ext l c buffer)) = output_gain c"
  "output_headroom (fst (pll_update ext l c buffer)) = output_headroom c"
  "output_channels (fst (pll_update ext l c buffer)) = output_channels c"
  "output_energy (fst (pll_update ext l c buffer)) = output_energy c"
  "output_sum_gain_sq (fst (pll_update ext l c buffer)) = output_sum_gain_sq c"
  "hangcount (fst (pll_update ext l c buffer)) = hangcount c"
  by (simp_all add: pll_update_def Let_def split_beta lock_detector_agc_frame phase_update_agc_frame)

lemma pll_update_length: "length (snd (pll_update ext l c buffer)) = length buffer"
proof (cases "linear_pll c")
  case True
  obtain b p sg ns where ps: "pll_samples ext (linear_square c) buffer
           (set_pll_params ext
              (pll_pll (if \<not> pll_was_on c
                     then c\<lparr>linear_rotations := 0,
                               pll_pll := reset_integrator ext (pll_pll c),
                               pll_was_on := True\<rparr>
                     else c))
              (linear_loop_bw c) DEFAULT_PLL_DAMPING) 0 0 = (b, p, sg, ns)"
    by (metis prod_cases4)
  have "length b = length buffer" by (rule pll_samples_length[OF ps])
  then show ?thesis using True ps
    by (auto simp add: pll_update_def Let_def split: prod.splits if_splits)
next
  case False
  then show ?thesis by (simp add: pll_update_def)
qed

lemma shift_samples_length: "length (fst (shift_samples ext buffer osc)) = length buffer"
  by (induction buffer arbitrary: osc) (simp_all add: split_beta Let_def)

lemma shift_update_length: "length (snd (shift_update ext c buffer)) = length buffer"
  by (simp add: shift_update_def Let_def split_beta shift_samples_length)

lemma shift_update_frame:
  "linear_agc (fst (shift_update ext c buffer)) = linear_agc c"
  "linear_env (fst (shift_update ext c buffer)) = linear_env c"
  "linear_pll (fst (shift_update ext c buffer)) = linear_pll c"
  "linear_hangtime (fst (shift_update ext c buffer)) = linear_hangtime c"
  "linear_threshold (fst (shift_update ext c buffer)) = linear_threshold c"
  "linear_recovery_rate (fst (shift_update ext c buffer)) = linear_recovery_rate c"
  "sig_bb_power (fst (shift_update ext c buffer)) = sig_bb_power c"
  "sig_n0 (fst (shift_update ext c buffer)) = sig_n0 c"
  "filter_min_IF (fst (shift_update ext c buffer)) = filter_min_IF c"
  "filter_max_IF (fst (shift_update ext c buffer)) = filter_max_IF c"
  "tune_freq (fst (shift_update ext c buffer)) = tune_freq c"
  "output_gain (fst (shift_update ext c buffer)) = output_gain c"
  "output_headroom (fst (shift_update ext c buffer)) = output_headroom c"
  "output_channels (fst (shift_update ext c buffer)) = output_channels c"
  "output_energy (fst (shift_update ext c buffer)) = output_energy c"
  "output_sum_gain_sq (fst (shift_update ext c buffer)) = output_sum_gain_sq c"
  "hangcount (fst (shift_update ext c buffer)) = hangcount c"
  "linear_pll_lock (fst (shift_update ext c buffer)) = linear_pll_lock c"
  "pll_lock_count (fst (shift_update ext c buffer)) = pll_lock_count c"
  "linear_lock_timer (fst (shift_update ext c buffer)) = linear_lock_timer c"
  "linear_rotations (fst (shift_update ext c buffer)) = linear_rotations c"
  "linear_cphase (fst (shift_update ext c buffer)) = linear_cphase c"
  "pll_was_on (fst (shift_update ext c buffer)) = pll_was_on c"
  "sig_snr (fst (shift_update ext c buffer)) = sig_snr c"
  "pll_pll (fst (shift_update ext c buffer)) = pll_pll c"
  by (simp_all add: shift_update_def Let_def split_beta)


lemma first_pass_frame:
  "linear_agc (fst (first_pass ext l c buffer)) = linear_agc c"
  "linear_env (fst (first_pass ext l c buffer)) = linear_env c"
  "linear_pll (fst (first_pass ext l c buffer)) = linear_pll c"
  "linear_hangtime (fst (first_pass ext l c buffer)) = linear_hangtime c"
  "linear_threshold (fst (first_pass ext l c buffer)) = linear_threshold c"
  "linear_recovery_rate (fst (first_pass ext l c buffer)) = linear_recovery_rate c"
  "sig_bb_power (fst (first_pass ext l c buffer)) = sig_bb_power c"
  "sig_n0 (fst (first_pass ext l c buffer)) = sig_n0 c"
  "filter_min_IF (fst (first_pass ext l c buffer)) = filter_min_IF c"
  "filter_max_IF (fst (first_pass ext l c buffer)) = filter_max_IF c"
  "tune_freq (fst (first_pass ext l c buffer)) = tune_freq c"
  "output_gain (fst (first_pass ext l c buffer)) = output_gain c"
  "output_headroom (fst (first_pass ext l c buffer)) = output_headroom c"
  "output_channels (fst (first_pass ext l c buffer)) = output_channels c"
  "output_energy (fst (first_pass ext l c buffer)) = output_energy c"
  "output_sum_gain_sq (fst (first_pass ext l c buffer)) = output_sum_gain_sq c"
  "hangcount (fst (first_pass ext l c buffer)) = hangcount c"
  by (simp_all add: first_pass_def split_beta shift_update_frame pll_update_frame)

lemma first_pass_lock:
  "linear_pll_lock (fst (first_pass ext l c buffer)) = linear_pll_lock (fst (pll_update ext l c buffer))"
  by (simp add: first_pass_def split_beta shift_update_frame)

lemma first_pass_length: "length (snd (first_pass ext l c buffer)) = length buffer"
  by (simp add: first_pass_def split_beta shift_update_length pll_update_length)

lemma agc_cong:
  assumes "linear_agc c' = linear_agc c" "linear_hangtime c' = linear_hangtime c"
    "linear_threshold c' = linear_threshold c" "linear_recovery_rate c' = linear_recovery_rate c"
    "sig_bb_power c' = sig_bb_power c" "sig_n0 c' = sig_n0 c"
    "filter_min_IF c' = filter_min_IF c" "filter_max_IF c' = filter_max_IF c"
    "output_gain c' = output_gain c" "output_headroom c' = output_headroom c"
    "hangcount c' = hangcount c"
  shows "agc c' N = agc c N"
  using assms
  by (simp add: agc_def strong_signal_def strong_newgain_def noise_above_threshold_def
      noise_newgain_def agc_bn_def agc_ampl_def Let_def)

lemma agc_first_pass: "agc (fst (first_pass ext l c buffer)) N = agc c N"
  by (rule agc_cong) (simp_all add: first_pass_frame)

lemma final_pass_cong:
  assumes "output_channels c' = output_channels c" "linear_env c' = linear_env c"
    "output_gain c' = output_gain c"
  shows "final_pass c' gc buffer = final_pass c gc buffer"
  using assms by (simp add: final_pass_def output_mode_def)

lemma block_pass_eq:
  "block_pass ext l c blk =
     (case agc c (length (blk_samples blk)) of
        None \<Rightarrow> None
      | Some (gc, hang) \<Rightarrow>
          Some ((fst (first_pass ext l c (blk_samples blk)))
                  \<lparr>hangcount := hang,
                   output_gain := fst (snd (final_pass c gc (snd (first_pass ext l c (blk_samples blk)))))\<rparr>,
                fst (final_pass c gc (snd (first_pass ext l c (blk_samples blk)))),
                output_gain c,
                per_sample_power c
                  (snd (snd (final_pass c gc (snd (first_pass ext l c (blk_samples blk))))))
                  (length (blk_samples blk))))"
proof -
  define c2 where "c2 = fst (first_pass ext l c (blk_samples blk))"
  define b2 where "b2 = snd (first_pass ext l c (blk_samples blk))"
  have fp: "first_pass ext l c (blk_samples blk) = (c2, b2)" by (simp add: c2_def b2_def)
  have a: "agc c2 (length (blk_samples blk)) = agc c (length (blk_samples blk))"
    unfolding c2_def by (rule agc_first_pass)
  have f: "final_pass (c2\<lparr>hangcount := hang\<rparr>) gc b2 = final_pass c gc b2" for hang gc
    by (rule final_pass_cong) (simp_all add: c2_def first_pass_frame)
  have g: "output_gain c2 = output_gain c" by (simp add: c2_def first_pass_frame)
  have p: "per_sample_power (c2\<lparr>hangcount := hang, output_gain := x\<rparr>) q n = per_sample_power c q n"
    for hang x q n
    by (simp add: per_sample_power_def c2_def first_pass_frame)
  show ?thesis
    unfolding block_pass_def Let_def fp prod.case a
    unfolding c2_def[symmetric] b2_def[symmetric]
    by (simp add: f g p split_beta split: option.splits)
qed

lemma assert_nonzero_pos: "0 < gc \<Longrightarrow> assert_nonzero (Fin gc) r = Some r"
  by (simp add: assert_nonzero_def fne_def)

lemma assert_nonzero_Some: "assert_nonzero gc r = Some r' \<Longrightarrow> r' = r \<and> fne gc (Fin 0)"
  by (simp add: assert_nonzero_def split: if_splits)









lemma block_pass_gain:
  assumes "agc c (length (blk_samples blk)) = Some (gc, hang)"
  shows "\<exists>c' samples P. block_pass ext l c blk = Some (c', samples, output_gain c, P)
      \<and> output_gain c' = ((\<lambda>g. fmul g gc) ^^ length (blk_samples blk)) (output_gain c)
      \<and> hangcount c' = hang
      \<and> linear_agc c' = linear_agc c \<and> linear_recovery_rate c' = linear_recovery_rate c"
  unfolding block_pass_eq assms
  by (simp add: final_pass_gain first_pass_length first_pass_frame)


lemma demod_block_eq:
  assumes "block_pass ext l c blk = Some (c1, samples, g0, P)"
  shows "demod_block ext l c blk =
     (let c2 = c1\<lparr>output_energy := fadd (output_energy c1) P\<rparr>;
          mute = (feq P (Fin 0) \<or> (linear_pll c1 \<and> \<not> linear_pll_lock c1) \<or> feq (tune_freq c1) (Fin 0))
      in if blk_send_result blk = - 1 then Undelivered c2 samples mute
         else Delivered (c2\<lparr>output_sum_gain_sq := fadd (output_sum_gain_sq c2) (fmul g0 (output_gain c2))\<rparr>)
                samples mute)"
  by (simp add: demod_block_def assms mute_flag_def Let_def)

lemma demod_block_Aborted:
  "demod_block ext l c blk = Aborted \<longleftrightarrow> block_pass ext l c blk = None"
  by (auto simp add: demod_block_def Let_def split: option.splits)

text \<open>The fields of the gain control that survive a whole block.\<close>

lemma demod_block_gain:
  assumes "agc c (length (blk_samples blk)) = Some (gc, hang)"
  shows "\<exists>c' samples mute.
      (demod_block ext l c blk = Delivered c' samples mute
        \<or> demod_block ext l c blk = Undelivered c' samples mute)
      \<and> output_gain c' = ((\<lambda>g. fmul g gc) ^^ length (blk_samples blk)) (output_gain c)
      \<and> hangcount c' = hang
      \<and> linear_agc c' = linear_agc c \<and> linear_recovery_rate c' = linear_recovery_rate c"
proof -
  from block_pass_gain[OF assms, of ext l] obtain c1 samples P where
    bp: "block_pass ext l c blk = Some (c1, samples, output_gain c, P)"
    and f: "output_gain c1 = ((\<lambda>g. fmul g gc) ^^ length (blk_samples blk)) (output_gain c)"
      "hangcount c1 = hang" "linear_agc c1 = linear_agc c"
      "linear_recovery_rate c1 = linear_recovery_rate c"
    by blast
  show ?thesis
    unfolding demod_block_eq[OF bp] Let_def using f
    by (cases "blk_send_result blk = - 1") simp_all
qed

lemma downconvert_frame:
  "output_gain (downconvert c blk) = output_gain c"
  "linear_agc (downconvert c blk) = linear_agc c"
  "linear_recovery_rate (downconvert c blk) = linear_recovery_rate c"
  "hangcount (downconvert c blk) = hangcount c"
  by (simp_all add: downconvert_def)


lemma agc_off: "\<not> linear_agc chan \<Longrightarrow> agc chan N = Some (Fin 1, hangcount chan)"
  by (simp add: agc_def)

lemma ramp_one: "((\<lambda>g. fmul g (Fin 1)) ^^ n) g = g"
  by (induction n) (simp_all add: fmul_one)

lemma demod_loop_agc_off:
  assumes "\<not> linear_agc chan"
    and "demod_loop ext lock_limit chan blks = (chan', sent, exit)"
  shows "output_gain chan' = output_gain chan \<and> hangcount chan' = hangcount chan
         \<and> exit \<noteq> Assertion_failed"
  using assms
proof (induction blks arbitrary: chan chan' sent exit)
  case Nil
  then show ?case by auto
next
  case (Cons blk blks)
  let ?c = "downconvert chan blk"
  let ?N = "length (blk_samples blk)"
  have off: "\<not> linear_agc ?c" using Cons.prems(1) by (simp add: downconvert_frame)
  from demod_block_gain[where blk = blk and ext = ext and l = lock_limit, OF agc_off[OF off]] obtain c' samples mute where
    d: "demod_block ext lock_limit ?c blk = Delivered c' samples mute
        \<or> demod_block ext lock_limit ?c blk = Undelivered c' samples mute"
    and f: "output_gain c' = ((\<lambda>g. fmul g (Fin 1)) ^^ ?N) (output_gain ?c)"
      "hangcount c' = hangcount ?c" "linear_agc c' = linear_agc ?c"
    by blast
  have g': "output_gain c' = output_gain chan" "hangcount c' = hangcount chan" "\<not> linear_agc c'"
    using f off by (simp_all add: ramp_one downconvert_frame)
  from d show ?case
  proof
    assume del: "demod_block ext lock_limit ?c blk = Delivered c' samples mute"
    obtain c'' sent' exit' where rest: "demod_loop ext lock_limit c' blks = (c'', sent', exit')"
      by (metis prod_cases3)
    have "chan' = c''" "exit = exit'" using Cons.prems(2) del rest by simp_all
    then show ?thesis using Cons.IH[OF g'(3) rest] g'(1,2) by simp
  next
    assume und: "demod_block ext lock_limit ?c blk = Undelivered c' samples mute"
    then have "chan' = c'" "exit = No_output" using Cons.prems(2) by simp_all
    then show ?thesis using g' by simp
  qed
qed

lemma gain_loop_const:
  "gain_loop f (Fin 1) buffer g p =
     (concat (map (\<lambda>b. fst (f b g)) buffer), g, foldl (\<lambda>p b. fadd p (snd (f b g))) p buffer)"
  by (induction buffer arbitrary: p) (simp_all add: split_beta Let_def fmul_one)

lemma block_pass_hang:
  assumes "block_pass ext l c blk = Some (c', samples, g, P)"
  shows "\<exists>gc. agc c (length (blk_samples blk)) = Some (gc, hangcount c')"
  using assms unfolding block_pass_eq by (auto split: option.splits)

lemma agc_hang:
  assumes "linear_agc chan" "agc chan N = Some (gc, hang)"
  shows "hang = (if strong_signal chan then linear_hangtime chan
                 else if noise_above_threshold chan then hangcount chan
                 else if 0 < hangcount chan then hangcount chan - 1
                 else hangcount chan)"
  using assms
  by (auto simp add: agc_def Let_def dest!: assert_nonzero_Some split: if_splits)

lemma test_agc_simps:
  "agc_ampl test_channel = Fin 2" "agc_bn test_channel = Fin 0"
  "strong_signal test_channel" "strong_newgain test_channel = Fin (1 / 2)"
  by (simp_all add: agc_ampl_def agc_bn_def strong_signal_def strong_newgain_def
      test_channel_def fgreater_def fsub_def Let_def)

lemma test_hang_simps:
  "\<not> strong_signal (test_channel\<lparr>sig_bb_power := Fin 0, hangcount := 3\<rparr>)"
  "\<not> noise_above_threshold (test_channel\<lparr>sig_bb_power := Fin 0, hangcount := 3\<rparr>)"
  by (simp_all add: agc_ampl_def agc_bn_def strong_signal_def noise_above_threshold_def
      test_channel_def fgreater_def fsub_def Let_def)


text \<open>
  Claim C2. With the AGC enabled the block takes the first branch whose test holds, in the
  order: strong signal (\<open>ampl * gain > headroom\<close>), noise above threshold
  (\<open>bn * gain > threshold * headroom\<close>), hang (hang counter positive: \<open>gain_change = 1\<close>,
  the counter goes down by one), recovery (\<open>gain_change = recovery_rate ^ (1/N)\<close>). The
  hang counter is set to the hang time in the strong-signal branch only; the noise
  branch and the recovery branch leave it as it is. The three computed factors pass
  through \<open>assert(gain_change != 0)\<close>.
\<close>

theorem agc_branch_order:
  assumes "linear_agc chan"
  shows "let ramp = (\<lambda>newgain. if fgreater newgain (Fin 0)
                       then powf (fdiv newgain (output_gain chan)) (fdiv (Fin 1) (Fin (real N)))
                       else Fin 1);
             recovery = powf (linear_recovery_rate chan) (fdiv (Fin 1) (Fin (real N)))
         in (strong_signal chan \<longrightarrow>
               agc chan N = assert_nonzero (ramp (strong_newgain chan))
                              (ramp (strong_newgain chan), linear_hangtime chan))
          \<and> (\<not> strong_signal chan \<and> noise_above_threshold chan \<longrightarrow>
               agc chan N = assert_nonzero (ramp (noise_newgain chan))
                              (ramp (noise_newgain chan), hangcount chan))
          \<and> (\<not> strong_signal chan \<and> \<not> noise_above_threshold chan \<and> 0 < hangcount chan \<longrightarrow>
               agc chan N = Some (Fin 1, hangcount chan - 1))
          \<and> (\<not> strong_signal chan \<and> \<not> noise_above_threshold chan \<and> \<not> 0 < hangcount chan \<longrightarrow>
               agc chan N = assert_nonzero recovery (recovery, hangcount chan))
          \<and> strong_signal chan =
               fgreater (fmul (fsqrt (sig_bb_power chan)) (output_gain chan)) (output_headroom chan)
          \<and> noise_above_threshold chan =
               fgreater
                 (fmul (fsqrt (fmul (fabs (fsub (filter_min_IF chan) (filter_max_IF chan)))
                                    (sig_n0 chan)))
                       (output_gain chan))
                 (fmul (linear_threshold chan) (output_headroom chan))
          \<and> (\<forall>chan' samples g P.
                block_pass ext lock_limit chan blk = Some (chan', samples, g, P) \<longrightarrow>
                hangcount chan' =
                  (if strong_signal chan then linear_hangtime chan
                   else if noise_above_threshold chan then hangcount chan
                   else if 0 < hangcount chan then hangcount chan - 1
                   else hangcount chan))"
proof -
  have blk: "hangcount chan' =
                  (if strong_signal chan then linear_hangtime chan
                   else if noise_above_threshold chan then hangcount chan
                   else if 0 < hangcount chan then hangcount chan - 1
                   else hangcount chan)"
    if "block_pass ext lock_limit chan blk = Some (chan', samples, g, P)" for chan' samples g P
  proof -
    from block_pass_hang[OF that] obtain gc where
      "agc chan (length (blk_samples blk)) = Some (gc, hangcount chan')" by blast
    then show ?thesis by (rule agc_hang[OF assms])
  qed
  have br: "strong_signal chan \<Longrightarrow> agc chan N =
      (let newgain = strong_newgain chan;
           gain_change = (if fgreater newgain (Fin 0)
                   then powf (fdiv newgain (output_gain chan)) (fdiv (Fin 1) (Fin (real N)))
                   else Fin 1)
       in assert_nonzero gain_change (gain_change, linear_hangtime chan))"
    "\<not> strong_signal chan \<Longrightarrow> noise_above_threshold chan \<Longrightarrow> agc chan N =
      (let newgain = noise_newgain chan;
           gain_change = (if fgreater newgain (Fin 0)
                   then powf (fdiv newgain (output_gain chan)) (fdiv (Fin 1) (Fin (real N)))
                   else Fin 1)
       in assert_nonzero gain_change (gain_change, hangcount chan))"
    "\<not> strong_signal chan \<Longrightarrow> \<not> noise_above_threshold chan \<Longrightarrow> 0 < hangcount chan \<Longrightarrow>
       agc chan N = Some (Fin 1, hangcount chan - 1)"
    "\<not> strong_signal chan \<Longrightarrow> \<not> noise_above_threshold chan \<Longrightarrow> \<not> 0 < hangcount chan \<Longrightarrow>
       agc chan N =
      (let gain_change = powf (linear_recovery_rate chan) (fdiv (Fin 1) (Fin (real N)))
       in assert_nonzero gain_change (gain_change, hangcount chan))"
    using assms by (simp_all add: agc_def)
  have defs: "strong_signal chan =
               fgreater (fmul (fsqrt (sig_bb_power chan)) (output_gain chan)) (output_headroom chan)"
    "noise_above_threshold chan =
               fgreater
                 (fmul (fsqrt (fmul (fabs (fsub (filter_min_IF chan) (filter_max_IF chan)))
                                    (sig_n0 chan)))
                       (output_gain chan))
                 (fmul (linear_threshold chan) (output_headroom chan))"
    by (simp_all add: strong_signal_def noise_above_threshold_def agc_ampl_def agc_bn_def Let_def)
  show ?thesis
    unfolding Let_def using br[unfolded Let_def] defs blk by blast
qed


theorem agc_branch_order_witness:
  "(\<exists>gain_change. agc test_channel 2 = Some (gain_change, 55))
   \<and> agc (test_channel\<lparr>sig_bb_power := Fin 0, hangcount := 3\<rparr>) 2 = Some (Fin 1, 2)"
proof -
  have a: "linear_agc test_channel"
    "linear_agc (test_channel\<lparr>sig_bb_power := Fin 0, hangcount := 3\<rparr>)"
    by (simp_all add: test_channel_def)
  have f: "output_gain test_channel = Fin 1" "linear_hangtime test_channel = 55"
    "hangcount (test_channel\<lparr>sig_bb_power := Fin 0, hangcount := 3\<rparr>) = 3"
    by (simp_all add: test_channel_def)
  have r: "0 < (1 / 2 :: real) powr (1 / 2)" by simp
  from agc_branch_order[OF a(1), of 2 still_externals 2 test_block]
  have "agc test_channel 2 =
          assert_nonzero (Fin ((1 / 2) powr (1 / 2))) (Fin ((1 / 2) powr (1 / 2)), 55)"
    unfolding Let_def by (simp add: test_agc_simps f fgreater_def)
  then have 1: "\<exists>gain_change. agc test_channel 2 = Some (gain_change, 55)"
    by (simp only: assert_nonzero_pos[OF r]) blast
  from agc_branch_order[OF a(2), of 2 still_externals 2 test_block]
  have 2: "agc (test_channel\<lparr>sig_bb_power := Fin 0, hangcount := 3\<rparr>) 2 = Some (Fin 1, 2)"
    unfolding Let_def using test_hang_simps by (simp add: f)
  from 1 2 show ?thesis by (rule conjI)
qed









lemma block_pass_agc_off:
  assumes "\<not> linear_agc chan"
  shows "block_pass ext lock_limit chan blk =
     (let buffer = snd (first_pass ext lock_limit chan (blk_samples blk))
      in Some ((fst (first_pass ext lock_limit chan (blk_samples blk)))
                 \<lparr>hangcount := hangcount chan, output_gain := output_gain chan\<rparr>,
               concat (map (\<lambda>b. fst (output_mode chan b (output_gain chan))) buffer),
               output_gain chan,
               per_sample_power chan
                 (foldl (\<lambda>p b. fadd p (snd (output_mode chan b (output_gain chan)))) (Fin 0) buffer)
                 (length (blk_samples blk))))"
  unfolding block_pass_eq agc_off[OF assms]
  by (simp add: final_pass_def gain_loop_const Let_def)


text \<open>
  Claim C8. With the AGC flag off \<open>gain_change\<close> is 1 in every block: the gain after the
  block is the gain before it, and so after any number of blocks, whatever their
  samples and power estimates. The block is demodulated as usual, every sample with
  that one gain, and its output power is accumulated as usual.
\<close>

theorem agc_off_gain_constant:
  assumes "\<not> linear_agc chan"
  shows "agc chan N = Some (Fin 1, hangcount chan)
    \<and> (\<exists>chan' samples P.
          block_pass ext lock_limit chan blk = Some (chan', samples, output_gain chan, P)
          \<and> output_gain chan' = output_gain chan
          \<and> (let buffer = snd (first_pass ext lock_limit chan (blk_samples blk))
             in samples = concat (map (\<lambda>b. fst (output_mode chan b (output_gain chan))) buffer)
              \<and> P = per_sample_power chan
                      (foldl (\<lambda>p b. fadd p (snd (output_mode chan b (output_gain chan))))
                         (Fin 0) buffer)
                      (length (blk_samples blk))))
    \<and> (\<forall>chan' sent exit.
          demod_loop ext lock_limit chan blks = (chan', sent, exit) \<longrightarrow>
          output_gain chan' = output_gain chan \<and> exit \<noteq> Assertion_failed)"
proof -
  have a: "agc chan N = Some (Fin 1, hangcount chan)"
    by (rule agc_off[OF assms])
  have b: "\<exists>chan' samples P.
          block_pass ext lock_limit chan blk = Some (chan', samples, output_gain chan, P)
          \<and> output_gain chan' = output_gain chan
          \<and> (let buffer = snd (first_pass ext lock_limit chan (blk_samples blk))
             in samples = concat (map (\<lambda>b. fst (output_mode chan b (output_gain chan))) buffer)
              \<and> P = per_sample_power chan
                      (foldl (\<lambda>p b. fadd p (snd (output_mode chan b (output_gain chan))))
                         (Fin 0) buffer)
                      (length (blk_samples blk)))"
    unfolding block_pass_agc_off[OF assms] by (simp add: Let_def)
  have l: "\<forall>chan' sent exit.
          demod_loop ext lock_limit chan blks = (chan', sent, exit) \<longrightarrow>
          output_gain chan' = output_gain chan \<and> exit \<noteq> Assertion_failed"
    using demod_loop_agc_off[OF assms] by blast
  from a b l show ?thesis by (intro conjI)
qed

theorem agc_off_gain_constant_witness:
  "(case demod_loop still_externals 2 (test_channel\<lparr>linear_agc := False\<rparr>)
           [test_block, test_block] of
      (chan', sent, exit) \<Rightarrow> output_gain chan' = Fin 1 \<and> exit \<noteq> Assertion_failed)
   \<and> agc (test_channel\<lparr>linear_agc := False\<rparr>) 2 = Some (Fin 1, 0)"
proof -
  let ?c = "test_channel\<lparr>linear_agc := False\<rparr>"
  obtain chan' sent exit where
    l: "demod_loop still_externals 2 ?c [test_block, test_block] = (chan', sent, exit)"
    by (metis prod_cases3)
  have off: "\<not> linear_agc ?c" by simp
  have f: "output_gain ?c = Fin 1" "hangcount ?c = 0" by (simp_all add: test_channel_def)
  from agc_off_gain_constant[OF off, of 2 still_externals 2 test_block "[test_block, test_block]"] l
  have "output_gain chan' = Fin 1 \<and> exit \<noteq> Assertion_failed"
    and "agc ?c 2 = Some (Fin 1, 0)"
    unfolding f by blast+
  then show ?thesis unfolding l by simp
qed

lemma first_pass_lock_pll:
  "linear_pll_lock (fst (first_pass ext l c buffer)) = linear_pll_lock (fst (pll_update ext l c buffer))"
  by (simp add: first_pass_def split_beta shift_update_frame)

lemma block_pass_fields:
  assumes "block_pass ext l c blk = Some (c1, samples, g0, P)"
  shows "linear_pll c1 = linear_pll c" "tune_freq c1 = tune_freq c"
    "output_energy c1 = output_energy c"
    "linear_pll_lock c1 = linear_pll_lock (fst (pll_update ext l c (blk_samples blk)))"
    "g0 = output_gain c"
  using assms unfolding block_pass_eq
  by (auto simp add: first_pass_frame first_pass_lock_pll split: option.splits)

lemma still_first_pass_buffer:
  "snd (first_pass still_externals l c buffer) = snd (pll_update still_externals l c buffer)"
  by (simp add: first_pass_def split_beta shift_update_def still_simps fne_def Let_def)


text \<open>
  Claim C4. For every block that reaches \<open>send_output\<close> the mute flag is true exactly
  when the per-sample output power of the block is zero, or the PLL is enabled and the
  lock flag, as this block's update left it, is false, or the tuned frequency is zero.
\<close>

theorem mute_condition:
  assumes "block_pass ext lock_limit chan blk = Some (chan1, samples, start_gain, output_power)"
  shows "\<exists>chan' mute.
      (demod_block ext lock_limit chan blk = Delivered chan' samples mute
        \<or> demod_block ext lock_limit chan blk = Undelivered chan' samples mute)
      \<and> mute = (feq output_power (Fin 0) \<or> (linear_pll chan \<and> \<not> linear_pll_lock chan')
                \<or> feq (tune_freq chan) (Fin 0))
      \<and> linear_pll_lock chan' = linear_pll_lock (fst (pll_update ext lock_limit chan (blk_samples blk)))
      \<and> output_energy chan' = fadd (output_energy chan) output_power"
proof -
  note f = block_pass_fields[OF assms]
  show ?thesis
    unfolding demod_block_eq[OF assms] Let_def
    by (cases "blk_send_result blk = - 1") (simp_all add: f)
qed


theorem mute_condition_witness:
  "(\<exists>chan' samples.
      demod_block still_externals 2 (test_channel\<lparr>linear_agc := False\<rparr>) test_block
        = Delivered chan' samples False
      \<or> demod_block still_externals 2 (test_channel\<lparr>linear_agc := False\<rparr>) test_block
        = Undelivered chan' samples False)
   \<and> (\<exists>chan' samples.
      demod_block still_externals 600 (test_channel\<lparr>linear_agc := False\<rparr>) test_block
        = Delivered chan' samples True
      \<or> demod_block still_externals 600 (test_channel\<lparr>linear_agc := False\<rparr>) test_block
        = Undelivered chan' samples True)"
proof -
  let ?c = "test_channel\<lparr>linear_agc := False\<rparr>"
  let ?b = "[Complex 3 1, Complex 3 (- 1)]"
  have c: "linear_pll ?c" "\<not> linear_square ?c" "pll_pll ?c = 1" "\<not> linear_agc ?c"
    "output_gain ?c = Fin 1" "output_channels ?c = 1" "\<not> linear_env ?c"
    "tune_freq ?c = Fin 7000000" "fm_squelch_close ?c = Fin 2" "fm_squelch_open ?c = Fin 4"
    "pll_lock_count ?c = 0" "\<not> linear_pll_lock ?c"
    by (simp_all add: test_channel_def)
  have s: "blk_samples test_block = ?b" by (simp add: test_block_def)
  have buf: "snd (first_pass still_externals l ?c ?b) = ?b" for l
    unfolding still_first_pass_buffer by (rule still_pll_buffer[OF c(1,2,3)])
  have snr: "sig_snr (fst (pll_update still_externals l ?c ?b)) = Fin 8" for l
  proof -
    have "pll_update still_externals l ?c ?b
        = (fst (pll_update still_externals l ?c ?b), ?b)"
      using still_pll_buffer[OF c(1,2,3), of l] by (metis prod.collapse)
    from pll_update_snr[OF c(1) this] show ?thesis by simp
  qed
  have lock: "linear_pll_lock (fst (pll_update still_externals l ?c ?b)) = (l \<le> 2)" for l
    using pll_update_lock[OF c(1) surjective_pairing, of still_externals l ?b]
    unfolding snr c(9,10,11) using c(12) by (simp add: fgreater_def)
  have bp: "\<exists>c1 samples.
      block_pass still_externals l ?c test_block = Some (c1, samples, Fin 1, Fin 18)" for l
    unfolding block_pass_agc_off[OF c(4)] s buf Let_def
    by (simp add: c(5,6,7) output_mode_def mono_inphase_def per_sample_power_def Let_def)
  from bp[of 2] obtain c1 samples where
    b1: "block_pass still_externals 2 ?c test_block = Some (c1, samples, Fin 1, Fin 18)"
    by blast
  from mute_condition[OF b1]
  have 1: "\<exists>chan' samples.
      demod_block still_externals 2 ?c test_block = Delivered chan' samples False
      \<or> demod_block still_externals 2 ?c test_block = Undelivered chan' samples False"
    unfolding s lock c(8) using c(1) by auto
  from bp[of 600] obtain c2 samples2 where
    b2: "block_pass still_externals 600 ?c test_block = Some (c2, samples2, Fin 1, Fin 18)"
    by blast
  from mute_condition[OF b2]
  have 2: "\<exists>chan' samples.
      demod_block still_externals 600 ?c test_block = Delivered chan' samples True
      \<or> demod_block still_externals 600 ?c test_block = Undelivered chan' samples True"
    unfolding s lock c(8) using c(1) by auto
  from 1 2 show ?thesis by (rule conjI)
qed


subsection \<open>The signal-to-noise estimate\<close>





end
